theory Spec2Isabelle
  imports Main "HOL-Library.Word" "HOL-Library.Multiset"
begin

section \<open>Strings of the host language\<close>

text \<open>
  A string of the program is a sequence of 16-bit code units; its \<open>length\<close> counts code
  units, which is what \<open>long.length\<close>, \<open>short.length\<close> and \<open>key.split("")\<close> see.
  \<open>js\<close> turns an ASCII literal into such a string.
\<close>

type_synonym code_unit = "16 word"
type_synonym jsstring = "code_unit list"

definition js :: "string \<Rightarrow> jsstring" where
  "js s = map (\<lambda>c. of_nat (of_char c)) s"

definition dash :: code_unit where
  "dash = 0x2D"

definition equals_sign :: code_unit where
  "equals_sign = 0x3D"

definition startsWith :: "jsstring \<Rightarrow> jsstring \<Rightarrow> bool" where
  "startsWith a p = (take (length p) a = p)"

text \<open>The character classes \<open>\w\<close> and \<open>\d\<close> (no unicode or ignore-case flag), and the
  line terminators that \<open>.\<close> refuses to match.\<close>

definition is_digit :: "code_unit \<Rightarrow> bool" where
  "is_digit c = (0x30 \<le> c \<and> c \<le> 0x39)"

definition is_word :: "code_unit \<Rightarrow> bool" where
  "is_word c = ((0x30 \<le> c \<and> c \<le> 0x39) \<or> (0x41 \<le> c \<and> c \<le> 0x5A) \<or> c = 0x5F
     \<or> (0x61 \<le> c \<and> c \<le> 0x7A))"

definition line_terminator :: "code_unit \<Rightarrow> bool" where
  "line_terminator c = (c = 0x0A \<or> c = 0x0D \<or> c = 0x2028 \<or> c = 0x2029)"

text \<open>White space as \<open>parseInt\<close> skips it: the white-space code points and the line
  terminators.\<close>

definition is_whitespace :: "code_unit \<Rightarrow> bool" where
  "is_whitespace c = (c = 0x09 \<or> c = 0x0B \<or> c = 0x0C \<or> c = 0x20 \<or> c = 0xA0 \<or> c = 0x1680
     \<or> (0x2000 \<le> c \<and> c \<le> 0x200A) \<or> c = 0x202F \<or> c = 0x205F \<or> c = 0x3000 \<or> c = 0xFEFF
     \<or> line_terminator c)"

section \<open>Data model\<close>

text \<open>A number of the program is a double. \<open>Finite neg m\<close> is the double of
  magnitude \<open>m\<close>, an integer that a double represents, with its sign, so
  \<open>Finite True 0\<close> is the negative zero; \<open>Infinite neg\<close> is an infinity. These are the
  numbers \<open>parseInt\<close> can return. \<open>NonInteger b\<close> is any other double (a fraction, the
  not-a-number), kept as its 64 bits: only a \<open>defaultValue\<close> of a schema can be one, and
  the program never computes with it.\<close>

datatype js_number = Finite bool nat | Infinite bool | NonInteger "64 word"

text \<open>The conversion of a non-negative integer to the nearest double, ties to the even
  significand. \<open>exponent_of n\<close> is the number of low bits that do not fit into the 53
  bits of the significand; the integer is cut there and rounded; a result of \<open>2^1024\<close> or
  more is the infinity (\<open>None\<close>).\<close>

function exponent_of :: "nat \<Rightarrow> nat" where
  "exponent_of n = (if n < 2 ^ 53 then 0 else Suc (exponent_of (n div 2)))"
  by pat_completeness auto
termination
proof (relation "measure (\<lambda>n. n)")
  show "wf (measure (\<lambda>n. n))" by simp
next
  fix n :: nat
  assume "\<not> n < 2 ^ 53"
  then have "0 < n" by (cases "n = 0") simp_all
  then show "(n div 2, n) \<in> measure (\<lambda>n. n)" by simp
qed

declare exponent_of.simps [simp del]

definition nearest_double :: "nat \<Rightarrow> nat option" where
  "nearest_double n =
     (let e = exponent_of n;
          q = n div 2 ^ e;
          r = n mod 2 ^ e;
          m = (if 2 ^ e < 2 * r \<or> (2 * r = 2 ^ e \<and> odd q) then q + 1 else q)
      in if 2 ^ 1024 \<le> m * 2 ^ e then None else Some (m * 2 ^ e))"

definition to_Number :: "bool \<Rightarrow> nat \<Rightarrow> js_number" where
  "to_Number neg n =
     (case nearest_double n of None \<Rightarrow> Infinite neg | Some m \<Rightarrow> Finite neg m)"

text \<open>\<open>FlagValue = string | boolean | number\<close>.\<close>

datatype FlagValue = StrV jsstring | BoolV bool | NumV js_number

definition typeof :: "FlagValue \<Rightarrow> jsstring" where
  "typeof v = (case v of StrV _ \<Rightarrow> js ''string'' | BoolV _ \<Rightarrow> js ''boolean''
     | NumV _ \<Rightarrow> js ''number'')"

text \<open>A schema entry. \<open>short\<close>, \<open>required\<close> and \<open>defaultValue\<close> are optional fields
  (\<open>None\<close> is \<open>undefined\<close>); \<open>valueType\<close> is a string at run time, and the validator
  checks it against the three tags.\<close>

record FlagSchema =
  long :: jsstring
  short :: "jsstring option"
  required :: "bool option"
  defaultValue :: "FlagValue option"
  valueType :: jsstring

text \<open>The \<open>flags\<close> object is a plain object: its own properties are a finite map, and a
  read \<open>flags[key]\<close> that finds no own property continues in \<open>Object.prototype\<close>.\<close>

type_synonym flags_record = "jsstring \<rightharpoonup> FlagValue"

record ParsedArgs =
  positionals :: "jsstring list"
  flags :: flags_record

datatype js_prop = Own FlagValue | Inherited jsstring

definition object_prototype_keys :: "jsstring list" where
  "object_prototype_keys = map js
     [''constructor'', ''hasOwnProperty'', ''isPrototypeOf'', ''propertyIsEnumerable'',
      ''toLocaleString'', ''toString'', ''valueOf'', ''__proto__'', ''__defineGetter__'',
      ''__defineSetter__'', ''__lookupGetter__'', ''__lookupSetter__'']"

definition getProp :: "flags_record \<Rightarrow> jsstring \<Rightarrow> js_prop option" where
  "getProp fl key =
     (case fl key of
        Some v \<Rightarrow> Some (Own v)
      | None \<Rightarrow> if key \<in> set object_prototype_keys then Some (Inherited key) else None)"

subsection \<open>Errors\<close>

text \<open>Every error class of the program is a constructor. The message of a
  \<open>SchemaValidationError\<close> and of a \<open>FlagParseError\<close> is a template filled with values;
  the template and its values are kept instead of the rendered text.\<close>

datatype schema_message =
    InvalidLongFlag jsstring
  | DuplicateLongFlag jsstring
  | InvalidShortFlag jsstring
  | DuplicateShortFlag jsstring
  | InvalidValueType jsstring jsstring

datatype parse_message =
    CannotSpecifyInShortForm jsstring jsstring
  | FailedToParseNumeric jsstring "jsstring option"
  | InvalidBooleanValue jsstring jsstring
  | ExpectedString jsstring

datatype error =
    UnknownFlagError jsstring bool
  | DuplicateFlagError jsstring js_prop FlagValue
  | FlagParseError parse_message jsstring "jsstring option"
  | SchemaValidationError schema_message
  | MissingRequiredFlagError jsstring
  | InvalidDefaultValueError jsstring jsstring jsstring

section \<open>The two regular expressions\<close>

text \<open>\<open>FLAG_REGEX = /--?(\w+)(?:=(.*))?/\<close>. \<open>flag_body\<close> matches \<open>(\w+)(?:=(.*))?\<close> at
  the start of its argument: both quantifiers are greedy, and nothing after them can fail,
  so the key is the longest run of word characters and the value, when an \<open>=\<close> follows,
  runs to the first line terminator. It returns the two capture groups.\<close>

definition flag_body :: "jsstring \<Rightarrow> (jsstring \<times> jsstring option) option" where
  "flag_body t =
     (let key = takeWhile is_word t in
      if key = [] then None
      else Some (key,
        case dropWhile is_word t of
          [] \<Rightarrow> None
        | c # vs \<Rightarrow> if c = equals_sign
                    then Some (takeWhile (\<lambda>c. \<not> line_terminator c) vs) else None))"

text \<open>One attempt at a fixed start: a dash, then \<open>-?\<close> takes a second dash when there is
  one and gives it back when the body does not match after it.\<close>

definition FLAG_REGEX_at :: "jsstring \<Rightarrow> (jsstring \<times> jsstring option) option" where
  "FLAG_REGEX_at s =
     (case s of
        [] \<Rightarrow> None
      | c # r \<Rightarrow>
          if c \<noteq> dash then None
          else (case r of
                  [] \<Rightarrow> flag_body r
                | d # r2 \<Rightarrow>
                    if d = dash
                    then (case flag_body r2 of Some m \<Rightarrow> Some m | None \<Rightarrow> flag_body r)
                    else flag_body r))"

text \<open>\<open>arg.match(FLAG_REGEX)\<close>: the pattern has no anchor, so the attempt is made at
  every start from left to right and the first success is the match. The matched text
  itself is only tested for being non-empty, which it always is.\<close>

fun FLAG_REGEX_match :: "jsstring \<Rightarrow> (jsstring \<times> jsstring option) option" where
  "FLAG_REGEX_match [] = None"
| "FLAG_REGEX_match (c # s) =
     (case FLAG_REGEX_at (c # s) of Some m \<Rightarrow> Some m | None \<Rightarrow> FLAG_REGEX_match s)"

text \<open>\<open>NUMBER_REGEX = /^\d+$/\<close>, and the conversion of a possibly undefined capture to
  the string that \<open>test\<close> and \<open>parseInt\<close> work on.\<close>

definition ToString :: "jsstring option \<Rightarrow> jsstring" where
  "ToString val = (case val of None \<Rightarrow> js ''undefined'' | Some v \<Rightarrow> v)"

definition NUMBER_REGEX_test :: "jsstring \<Rightarrow> bool" where
  "NUMBER_REGEX_test v = (v \<noteq> [] \<and> list_all is_digit v)"

definition digits_value :: "jsstring \<Rightarrow> nat" where
  "digits_value ds = foldl (\<lambda>n c. 10 * n + unat (c - 0x30)) 0 ds"

text \<open>\<open>parseInt(s, 10)\<close>: leading white space is skipped, one sign is read, and the longest
  run of decimal digits that follows denotes an integer; the result is the double nearest
  to it, with the sign (so \<open>parseInt("-0")\<close> is the negative zero). \<open>None\<close> is the
  not-a-number that \<open>parseInt\<close> returns when no digit follows; the program only tests for
  it and never stores it. The language standard lets an engine replace the digits after
  the twentieth significant one by zeros before it rounds; the model rounds the integer
  that all the digits denote, and the two agree on every run of at most twenty
  significant digits.\<close>

definition parseInt :: "jsstring \<Rightarrow> js_number option" where
  "parseInt s =
     (let t = dropWhile is_whitespace s;
          neg = (case t of [] \<Rightarrow> False | c # _ \<Rightarrow> c = 0x2D);
          u = (case t of [] \<Rightarrow> [] | c # r \<Rightarrow> if c = 0x2D \<or> c = 0x2B then r else t);
          ds = takeWhile is_digit u
      in if ds = [] then None else Some (to_Number neg (digits_value ds)))"

section \<open>Flag parsing\<close>

type_synonym flag_pair = "jsstring \<times> FlagValue"

definition parseFlagNoSchema :: "jsstring \<Rightarrow> flag_pair option list" where
  "parseFlagNoSchema arg =
     (case FLAG_REGEX_match arg of
        None \<Rightarrow> [None]
      | Some (key, val) \<Rightarrow>
          (case (if NUMBER_REGEX_test (ToString val) then parseInt (ToString val) else None) of
             Some n \<Rightarrow> [Some (key, NumV n)]
           | None \<Rightarrow> [Some (key, case val of None \<Rightarrow> BoolV True | Some v \<Rightarrow> StrV v)]))"

text \<open>The loop over \<open>key.split("")\<close>: \<open>shortFlags\<close> is the accumulator, a \<open>throw\<close> leaves
  the loop.\<close>

fun short_loop ::
  "FlagSchema list \<Rightarrow> jsstring option \<Rightarrow> flag_pair option list \<Rightarrow> jsstring
     \<Rightarrow> error + flag_pair option list" where
  "short_loop schemas val shortFlags [] = Inr shortFlags"
| "short_loop schemas val shortFlags (c # cs) =
     (case find (\<lambda>s. short s = Some [c]) schemas of
        None \<Rightarrow> Inl (UnknownFlagError [c] True)
      | Some flagSchema \<Rightarrow>
          if valueType flagSchema \<noteq> js ''boolean''
          then Inl (FlagParseError
                 (CannotSpecifyInShortForm (valueType flagSchema) (long flagSchema)) [c] val)
          else short_loop schemas val (shortFlags @ [Some (long flagSchema, BoolV True)]) cs)"

text \<open>A \<open>valueType\<close> outside the three tags leaves the \<open>switch\<close> without a \<open>return\<close>; the
  \<open>undefined\<close> result is one element after \<open>flat()\<close> and is filtered away like a token
  that did not match.\<close>

definition parseFlagWithShema ::
  "FlagSchema list \<Rightarrow> jsstring \<Rightarrow> error + flag_pair option list" where
  "parseFlagWithShema schemas arg =
     (case FLAG_REGEX_match arg of
        None \<Rightarrow> Inr [None]
      | Some (key, val) \<Rightarrow>
          if \<not> startsWith arg (js ''--'') then short_loop schemas val [] key
          else (case find (\<lambda>s. long s = key) schemas of
                  None \<Rightarrow> Inl (UnknownFlagError key False)
                | Some flagSchema \<Rightarrow>
                    if valueType flagSchema = js ''number'' then
                      (case parseInt (ToString val) of
                         None \<Rightarrow> Inl (FlagParseError (FailedToParseNumeric key val) key val)
                       | Some n \<Rightarrow> Inr [Some (long flagSchema, NumV n)])
                    else if valueType flagSchema = js ''boolean'' then
                      (case val of
                         None \<Rightarrow> Inr [Some (long flagSchema, BoolV True)]
                       | Some v \<Rightarrow>
                           if v \<noteq> [] \<and> v \<noteq> js ''true'' \<and> v \<noteq> js ''false''
                           then Inl (FlagParseError (InvalidBooleanValue v key) key val)
                           else Inr [Some (long flagSchema, BoolV (v = [] \<or> v = js ''true''))])
                    else if valueType flagSchema = js ''string'' then
                      (case val of
                         None \<Rightarrow> Inl (FlagParseError (ExpectedString key) key val)
                       | Some v \<Rightarrow>
                           if v = [] then Inl (FlagParseError (ExpectedString key) key val)
                           else Inr [Some (long flagSchema, StrV v)])
                    else Inr [None]))"

section \<open>Schema validation\<close>

text \<open>The body of \<open>schemas.forEach\<close>, with the two sets \<open>longFlags\<close> and \<open>shortFlags\<close>
  passed along; \<open>Some e\<close> is the \<open>throw\<close>.\<close>

fun validate_loop ::
  "jsstring set \<Rightarrow> jsstring set \<Rightarrow> FlagSchema list \<Rightarrow> error option" where
  "validate_loop longFlags shortFlags [] = None"
| "validate_loop longFlags shortFlags (s # ss) =
     (if length (long s) \<le> 1 then Some (SchemaValidationError (InvalidLongFlag (long s)))
      else if long s \<in> longFlags then Some (SchemaValidationError (DuplicateLongFlag (long s)))
      else if short s \<noteq> None \<and> length (the (short s)) \<noteq> 1
        then Some (SchemaValidationError (InvalidShortFlag (long s)))
      else if short s \<noteq> None \<and> the (short s) \<in> shortFlags
        then Some (SchemaValidationError (DuplicateShortFlag (the (short s))))
      else if defaultValue s \<noteq> None \<and> typeof (the (defaultValue s)) \<noteq> valueType s
        then Some (InvalidDefaultValueError (long s) (valueType s)
               (typeof (the (defaultValue s))))
      else if valueType s \<notin> set [js ''string'', js ''number'', js ''boolean'']
        then Some (SchemaValidationError (InvalidValueType (long s) (valueType s)))
      else validate_loop (insert (long s) longFlags)
             (case short s of None \<Rightarrow> shortFlags | Some c \<Rightarrow> insert c shortFlags) ss)"

definition validateSchema :: "FlagSchema list \<Rightarrow> error + FlagSchema list" where
  "validateSchema schemas =
     (case validate_loop {} {} schemas of Some e \<Rightarrow> Inl e | None \<Rightarrow> Inr schemas)"

section \<open>The entry point\<close>

text \<open>\<open>args.map(flagParseFn)\<close> where the callback may throw: the first token that throws
  ends the map.\<close>

fun map_throw :: "('a \<Rightarrow> error + 'b) \<Rightarrow> 'a list \<Rightarrow> error + 'b list" where
  "map_throw f [] = Inr []"
| "map_throw f (a # as) =
     (case f a of
        Inl e \<Rightarrow> Inl e
      | Inr b \<Rightarrow> (case map_throw f as of Inl e \<Rightarrow> Inl e | Inr bs \<Rightarrow> Inr (b # bs)))"

text \<open>The merge: \<open>parsedFlags.forEach\<close> over the \<open>flags\<close> object.\<close>

fun merge_loop :: "flags_record \<Rightarrow> flag_pair list \<Rightarrow> error + flags_record" where
  "merge_loop fl [] = Inr fl"
| "merge_loop fl ((key, val) # ps) =
     (case getProp fl key of
        None \<Rightarrow> merge_loop (fl(key \<mapsto> val)) ps
      | Some first \<Rightarrow> Inl (DuplicateFlagError key first val))"

fun required_loop :: "flags_record \<Rightarrow> FlagSchema list \<Rightarrow> error option" where
  "required_loop fl [] = None"
| "required_loop fl (s # ss) =
     (if getProp fl (long s) = None then Some (MissingRequiredFlagError (long s))
      else required_loop fl ss)"

text \<open>The defaults are given to entries that declare one (the filter in \<open>tiniargs\<close>), so
  the branch of \<open>default_loop\<close> for an entry without a default is never taken.\<close>

fun default_loop :: "flags_record \<Rightarrow> FlagSchema list \<Rightarrow> flags_record" where
  "default_loop fl [] = fl"
| "default_loop fl (s # ss) =
     default_loop
       (if getProp fl (long s) = None
        then (case defaultValue s of None \<Rightarrow> fl | Some d \<Rightarrow> fl(long s \<mapsto> d)) else fl) ss"

definition tiniargs :: "jsstring list \<Rightarrow> FlagSchema list option \<Rightarrow> error + ParsedArgs" where
  "tiniargs args schema =
     (let positionals = filter (\<lambda>a. \<not> startsWith a (js ''-'')) args in
      case (case schema of
              None \<Rightarrow> Inr (\<lambda>arg. Inr (parseFlagNoSchema arg))
            | Some sch \<Rightarrow>
                (case validateSchema sch of
                   Inl e \<Rightarrow> Inl e
                 | Inr validated \<Rightarrow> Inr (parseFlagWithShema validated))) of
        Inl e \<Rightarrow> Inl e
      | Inr flagParseFn \<Rightarrow>
          (case map_throw flagParseFn args of
             Inl e \<Rightarrow> Inl e
           | Inr parsed \<Rightarrow>
               (let parsedFlags = map the (filter (\<lambda>f. f \<noteq> None) (concat parsed)) in
                case merge_loop Map.empty parsedFlags of
                  Inl e \<Rightarrow> Inl e
                | Inr fl \<Rightarrow>
                    (case schema of
                       None \<Rightarrow> Inr \<lparr>positionals = positionals, flags = fl\<rparr>
                     | Some sch \<Rightarrow>
                         (case required_loop fl (filter (\<lambda>s. required s = Some True) sch) of
                            Some e \<Rightarrow> Inl e
                          | None \<Rightarrow>
                              Inr \<lparr>positionals = positionals,
                                   flags = default_loop fl
                                     (filter (\<lambda>s. required s \<noteq> Some True
                                        \<and> defaultValue s \<noteq> None) sch)\<rparr>)))))"

section \<open>Auxiliary notions for the statements\<close>

text \<open>A string that starts with a word character, and a string in which some dash is
  directly followed by a word character.\<close>

fun starts_word :: "jsstring \<Rightarrow> bool" where
  "starts_word [] = False"
| "starts_word (c # r) = is_word c"

fun dash_then_word :: "jsstring \<Rightarrow> bool" where
  "dash_then_word [] = False"
| "dash_then_word (c # s) = ((c = dash \<and> starts_word s) \<or> dash_then_word s)"

text \<open>The phases of \<open>tiniargs\<close>, named: the pairs that all tokens emit (after \<open>flat\<close> and
  the filter), the same with the choice of parser and the schema validation in front, and
  the requiredness check followed by the defaults.\<close>

definition emitted ::
  "(jsstring \<Rightarrow> error + flag_pair option list) \<Rightarrow> jsstring list \<Rightarrow> error + flag_pair list" where
  "emitted f args =
     (case map_throw f args of
        Inl e \<Rightarrow> Inl e
      | Inr parsed \<Rightarrow> Inr (map the (filter (\<lambda>f. f \<noteq> None) (concat parsed))))"

definition parse_all :: "FlagSchema list option \<Rightarrow> jsstring list \<Rightarrow> error + flag_pair list" where
  "parse_all schema args =
     (case schema of
        None \<Rightarrow> emitted (\<lambda>arg. Inr (parseFlagNoSchema arg)) args
      | Some sch \<Rightarrow>
          (case validateSchema sch of
             Inl e \<Rightarrow> Inl e
           | Inr validated \<Rightarrow> emitted (parseFlagWithShema validated) args))"

definition finish ::
  "jsstring list \<Rightarrow> FlagSchema list option \<Rightarrow> flags_record \<Rightarrow> error + ParsedArgs" where
  "finish args schema fl =
     (case schema of
        None \<Rightarrow> Inr \<lparr>positionals = filter (\<lambda>a. \<not> startsWith a (js ''-'')) args, flags = fl\<rparr>
      | Some sch \<Rightarrow>
          (case required_loop fl (filter (\<lambda>s. required s = Some True) sch) of
             Some e \<Rightarrow> Inl e
           | None \<Rightarrow>
               Inr \<lparr>positionals = filter (\<lambda>a. \<not> startsWith a (js ''-'')) args,
                    flags = default_loop fl
                      (filter (\<lambda>s. required s \<noteq> Some True \<and> defaultValue s \<noteq> None) sch)\<rparr>))"

text \<open>The validator as the specification words it (section 4.1), to be compared with
  \<open>validateSchema\<close>: the checks of one entry, in their priority, where ``already seen''
  means among the entries before it; then the entries in input order, the first
  violation being the result.\<close>

definition entry_violation :: "FlagSchema list \<Rightarrow> FlagSchema \<Rightarrow> error option" where
  "entry_violation before s =
     (if length (long s) \<le> 1
        then Some (SchemaValidationError (InvalidLongFlag (long s)))
      else if long s \<in> set (map long before)
        then Some (SchemaValidationError (DuplicateLongFlag (long s)))
      else if (case short s of None \<Rightarrow> False | Some c \<Rightarrow> length c \<noteq> 1)
        then Some (SchemaValidationError (InvalidShortFlag (long s)))
      else if (case short s of None \<Rightarrow> False | Some c \<Rightarrow> Some c \<in> set (map short before))
        then Some (SchemaValidationError (DuplicateShortFlag (the (short s))))
      else if (case defaultValue s of None \<Rightarrow> False | Some d \<Rightarrow> typeof d \<noteq> valueType s)
        then Some (InvalidDefaultValueError (long s) (valueType s)
               (typeof (the (defaultValue s))))
      else if valueType s \<noteq> js ''string'' \<and> valueType s \<noteq> js ''boolean''
            \<and> valueType s \<noteq> js ''number''
        then Some (SchemaValidationError (InvalidValueType (long s) (valueType s)))
      else None)"

fun scan_entries :: "FlagSchema list \<Rightarrow> FlagSchema list \<Rightarrow> error option" where
  "scan_entries before [] = None"
| "scan_entries before (s # ss) =
     (case entry_violation before s of
        Some e \<Rightarrow> Some e
      | None \<Rightarrow> scan_entries (before @ [s]) ss)"

definition spec_validateSchema :: "FlagSchema list \<Rightarrow> error + FlagSchema list" where
  "spec_validateSchema schemas =
     (case scan_entries [] schemas of Some e \<Rightarrow> Inl e | None \<Rightarrow> Inr schemas)"

text \<open>A schema entry with a long name, a short name and a value type only, as the test
  suite writes its schemas.\<close>

definition flag_entry :: "string \<Rightarrow> string \<Rightarrow> string \<Rightarrow> FlagSchema" where
  "flag_entry l s t =
     \<lparr>long = js l, short = Some (js s), required = None, defaultValue = None,
      valueType = js t\<rparr>"

section \<open>Characters and the flag pattern\<close>

lemma not_word_dash [simp]: "\<not> is_word dash"
  by (simp add: is_word_def dash_def)

lemma not_word_equals [simp]: "\<not> is_word equals_sign"
  by (simp add: is_word_def equals_sign_def)

lemma js_dash [simp]:
  "js ''-'' = [dash]" "js ''--'' = [dash, dash]" "js ''='' = [equals_sign]"
  by (simp_all add: js_def dash_def equals_sign_def)

lemma digit_not_line_terminator: "is_digit c \<Longrightarrow> \<not> line_terminator c"
  unfolding is_digit_def line_terminator_def by auto

lemma digit_not_sign: "is_digit c \<Longrightarrow> c \<noteq> 0x2D \<and> c \<noteq> 0x2B"
  unfolding is_digit_def by auto

lemma digit_not_whitespace: "is_digit c \<Longrightarrow> \<not> is_whitespace c"
  unfolding is_digit_def line_terminator_def is_whitespace_def
  by (auto simp: word_le_nat_alt)

lemma flag_body_None: "flag_body t = None \<longleftrightarrow> \<not> starts_word t"
  by (cases t) (simp_all add: flag_body_def Let_def)

lemma flag_body_Some: "flag_body t = Some m \<Longrightarrow> starts_word t"
  using flag_body_None[of t] by auto

lemma flag_body_key:
  assumes "k \<noteq> []" "list_all is_word k" "\<not> starts_word rest"
  shows "flag_body (k @ rest) =
     Some (k, case rest of [] \<Rightarrow> None
              | c # vs \<Rightarrow> if c = equals_sign
                          then Some (takeWhile (\<lambda>c. \<not> line_terminator c) vs) else None)"
proof -
  have tw: "takeWhile is_word (k @ rest) = k" and dw: "dropWhile is_word (k @ rest) = rest"
    using assms by (cases rest; simp add: list_all_iff)+
  show ?thesis using assms(1) by (simp add: flag_body_def tw dw Let_def)
qed

lemma starts_word_append: "k \<noteq> [] \<Longrightarrow> list_all is_word k \<Longrightarrow> starts_word (k @ rest)"
  by (cases k) simp_all

lemma FLAG_REGEX_at_None:
  "FLAG_REGEX_at (c # s) = None \<longleftrightarrow>
     \<not> (c = dash \<and> (starts_word s
          \<or> (case s of [] \<Rightarrow> False | d # r \<Rightarrow> d = dash \<and> starts_word r)))"
  by (cases s)
    (auto simp: FLAG_REGEX_at_def flag_body_None split: option.splits dest: flag_body_Some)

lemma FLAG_REGEX_match_None: "FLAG_REGEX_match s = None \<longleftrightarrow> \<not> dash_then_word s"
proof (induction s)
  case Nil
  show ?case by simp
next
  case (Cons c s)
  have "FLAG_REGEX_match (c # s) = None
      \<longleftrightarrow> FLAG_REGEX_at (c # s) = None \<and> FLAG_REGEX_match s = None"
    by (simp split: option.splits)
  also have "\<dots> \<longleftrightarrow> \<not> dash_then_word (c # s)"
    unfolding Cons.IH FLAG_REGEX_at_None by (cases s) auto
  finally show ?case .
qed

lemma FLAG_REGEX_at_dash:
  assumes "starts_word t"
  shows "FLAG_REGEX_at (dash # t) = flag_body t"
    and "FLAG_REGEX_at (dash # dash # t) = flag_body t"
proof -
  obtain a t' where t: "t = a # t'" and a: "is_word a"
    using assms by (cases t) auto
  from a have "a \<noteq> dash" by auto
  then show "FLAG_REGEX_at (dash # t) = flag_body t"
    by (simp add: FLAG_REGEX_at_def t)
  obtain m where "flag_body t = Some m"
    using assms flag_body_None[of t] by auto
  then show "FLAG_REGEX_at (dash # dash # t) = flag_body t"
    by (simp add: FLAG_REGEX_at_def)
qed

lemma FLAG_REGEX_match_dash:
  assumes "starts_word t"
  shows "FLAG_REGEX_match (dash # t) = flag_body t"
    and "FLAG_REGEX_match (dash # dash # t) = flag_body t"
proof -
  obtain m where m: "flag_body t = Some m"
    using assms flag_body_None[of t] by auto
  show "FLAG_REGEX_match (dash # t) = flag_body t"
    by (simp add: FLAG_REGEX_at_dash(1)[OF assms] m)
  show "FLAG_REGEX_match (dash # dash # t) = flag_body t"
    by (simp add: FLAG_REGEX_at_dash(2)[OF assms] m)
qed


section \<open>The phases of the entry point\<close>

lemma tiniargs_phases:
  "tiniargs args schema =
     (case parse_all schema args of
        Inl e \<Rightarrow> Inl e
      | Inr ps \<Rightarrow>
          (case merge_loop Map.empty ps of
             Inl e \<Rightarrow> Inl e
           | Inr fl \<Rightarrow> finish args schema fl))"
  by (simp add: tiniargs_def parse_all_def emitted_def finish_def Let_def
      split: option.splits sum.splits)

lemma map_throw_append:
  "map_throw f (xs @ ys) =
     (case map_throw f xs of
        Inl e \<Rightarrow> Inl e
      | Inr bs \<Rightarrow> (case map_throw f ys of Inl e \<Rightarrow> Inl e | Inr cs \<Rightarrow> Inr (bs @ cs)))"
  by (induction xs) (simp_all split: sum.splits)

lemma map_throw_all_Inr:
  "(\<forall>a\<in>set xs. \<exists>b. f a = Inr b) \<Longrightarrow> \<exists>bs. map_throw f xs = Inr bs"
  by (induction xs) (auto split: sum.splits)

lemma map_throw_first_error:
  assumes "\<forall>a\<in>set pre. \<exists>b. f a = Inr b" "f tok = Inl e"
  shows "map_throw f (pre @ tok # post) = Inl e"
proof -
  obtain bs where "map_throw f pre = Inr bs"
    using map_throw_all_Inr[OF assms(1)] by blast
  then show ?thesis by (simp add: map_throw_append assms(2))
qed

lemma emitted_first_error:
  assumes "\<forall>a\<in>set pre. \<exists>b. f a = Inr b" "f tok = Inl e"
  shows "emitted f (pre @ tok # post) = Inl e"
  by (simp add: emitted_def map_throw_first_error[OF assms])

lemma emitted_drop_token:
  assumes "f tok = Inr [None]"
  shows "emitted f (pre @ tok # post) = emitted f (pre @ post)"
  by (simp add: emitted_def map_throw_append assms split: sum.splits)

lemma emitted_member:
  assumes "emitted f args = Inr ps" "tok \<in> set args" "f tok = Inr xs" "Some p \<in> set xs"
  shows "p \<in> set ps"
proof -
  have mem: "map_throw f args = Inr bs \<Longrightarrow> tok \<in> set args \<Longrightarrow> xs \<in> set bs" for bs
    using assms(3) by (induction args arbitrary: bs) (auto split: sum.splits)
  obtain bs where bs: "map_throw f args = Inr bs"
    and ps: "ps = map the (filter (\<lambda>f. f \<noteq> None) (concat bs))"
    using assms(1) by (auto simp: emitted_def split: sum.splits)
  have "Some p \<in> set (filter (\<lambda>f. f \<noteq> None) (concat bs))"
    using mem[OF bs assms(2)] assms(4) by auto
  then have "the (Some p) \<in> set ps"
    unfolding ps set_map by (rule imageI)
  then show ?thesis by simp
qed

lemma getProp_own [simp]: "fl key = Some v \<Longrightarrow> getProp fl key = Some (Own v)"
  by (simp add: getProp_def)

lemma getProp_None_iff:
  "getProp fl key = None \<longleftrightarrow> fl key = None \<and> key \<notin> set object_prototype_keys"
  by (simp add: getProp_def split: option.splits)

lemma merge_loop_preserves:
  "merge_loop fl0 ps = Inr fl \<Longrightarrow> fl0 key = Some v \<Longrightarrow> fl key = Some v"
proof (induction ps arbitrary: fl0)
  case Nil
  then show ?case by simp
next
  case (Cons p ps)
  obtain k w where p: "p = (k, w)" by (cases p)
  from Cons.prems have none: "getProp fl0 k = None"
    and rest: "merge_loop (fl0(k \<mapsto> w)) ps = Inr fl"
    by (auto simp: p split: option.splits)
  from none Cons.prems(2) have "k \<noteq> key" by (auto simp: getProp_None_iff)
  then show ?case using Cons.IH[OF rest] Cons.prems(2) by simp
qed

lemma merge_loop_stores:
  "merge_loop fl0 ps = Inr fl \<Longrightarrow> (key, v) \<in> set ps \<Longrightarrow> fl key = Some v"
proof (induction ps arbitrary: fl0)
  case Nil
  then show ?case by simp
next
  case (Cons p ps)
  obtain k w where p: "p = (k, w)" by (cases p)
  from Cons.prems have rest: "merge_loop (fl0(k \<mapsto> w)) ps = Inr fl"
    by (auto simp: p split: option.splits)
  show ?case
  proof (cases "(key, v) = (k, w)")
    case True
    then show ?thesis using merge_loop_preserves[OF rest, of key v] by simp
  next
    case False
    then show ?thesis using Cons.IH[OF rest] Cons.prems(2) by (auto simp: p)
  qed
qed

lemma default_loop_preserves: "fl key = Some v \<Longrightarrow> default_loop fl ss key = Some v"
proof (induction ss arbitrary: fl)
  case Nil
  then show ?case by simp
next
  case (Cons s ss)
  define fl' where "fl' = (if getProp fl (long s) = None
         then (case defaultValue s of None \<Rightarrow> fl | Some d \<Rightarrow> fl(long s \<mapsto> d)) else fl)"
  have "fl' key = Some v"
    using Cons.prems by (auto simp: fl'_def getProp_None_iff split: option.splits)
  then have "default_loop fl' ss key = Some v" by (rule Cons.IH)
  then show ?case by (simp add: fl'_def)
qed

lemma finish_result:
  assumes "finish args schema fl = Inr r"
  shows "positionals r = filter (\<lambda>a. \<not> startsWith a (js ''-'')) args"
    and "fl key = Some v \<Longrightarrow> flags r key = Some v"
  using assms
  by (auto simp: finish_def default_loop_preserves split: option.splits)

lemma tiniargs_result:
  assumes "tiniargs args schema = Inr r"
  obtains ps fl where "parse_all schema args = Inr ps" "merge_loop Map.empty ps = Inr fl"
    "finish args schema fl = Inr r"
  using assms unfolding tiniargs_phases by (auto split: sum.splits)


section \<open>Token-level lemmas\<close>

lemma short_loop_booleans:
  assumes "\<forall>c\<in>set cs. \<exists>e. find (\<lambda>s. short s = Some [c]) S = Some e \<and> valueType e = js ''boolean''"
  shows "short_loop S val acc cs =
     Inr (acc @ map (\<lambda>c. Some (long (the (find (\<lambda>s. short s = Some [c]) S)), BoolV True)) cs)"
  using assms by (induction cs arbitrary: acc) auto

lemma short_loop_unknown:
  assumes "\<forall>c\<in>set good. \<exists>e. find (\<lambda>s. short s = Some [c]) S = Some e \<and> valueType e = js ''boolean''"
    and "find (\<lambda>s. short s = Some [c]) S = None"
  shows "short_loop S val acc (good @ c # rest) = Inl (UnknownFlagError [c] True)"
  using assms by (induction good arbitrary: acc) auto

lemma short_loop_not_boolean:
  assumes "\<forall>c\<in>set good. \<exists>e. find (\<lambda>s. short s = Some [c]) S = Some e \<and> valueType e = js ''boolean''"
    and "find (\<lambda>s. short s = Some [c]) S = Some e" "valueType e \<noteq> js ''boolean''"
  shows "short_loop S val acc (good @ c # rest) =
     Inl (FlagParseError (CannotSpecifyInShortForm (valueType e) (long e)) [c] val)"
  using assms by (induction good arbitrary: acc) auto

lemma startsWith_simps [simp]:
  "startsWith (c # s) [d] = (c = d)" "startsWith [] [d] = False"
  "startsWith (c # c' # s) [d, d'] = (c = d \<and> c' = d')" "startsWith [c] [d, d'] = False"
  "startsWith [] [d, d'] = False"
  by (auto simp: startsWith_def)

lemma emitted_single: "emitted f [tok] = (case f tok of Inl e \<Rightarrow> Inl e
   | Inr xs \<Rightarrow> Inr (map the (filter (\<lambda>f. f \<noteq> None) xs)))"
  by (simp add: emitted_def split: sum.splits)

lemma nearest_double_exact: "n < 2 ^ 53 \<Longrightarrow> nearest_double n = Some n"
proof -
  assume a: "n < 2 ^ 53"
  then have e: "exponent_of n = 0" by (simp add: exponent_of.simps)
  have "(2::nat) ^ 53 \<le> 2 ^ 1024"
    by (rule power_increasing) simp_all
  with a have "\<not> (2::nat) ^ 1024 \<le> n" by linarith
  then show ?thesis by (simp add: nearest_double_def e)
qed

lemma takeWhile_digits:
  assumes "list_all is_digit v" "case rest of [] \<Rightarrow> True | c # _ \<Rightarrow> \<not> is_digit c"
  shows "takeWhile is_digit (v @ rest) = v"
  using assms by (cases rest) (simp_all add: list_all_iff)

lemma parseInt_digits:
  assumes "v \<noteq> []" "list_all is_digit v" "case rest of [] \<Rightarrow> True | c # _ \<Rightarrow> \<not> is_digit c"
  shows "parseInt (v @ rest) = Some (to_Number False (digits_value v))"
proof -
  obtain c v' where v: "v = c # v'" and c: "is_digit c"
    using assms(1,2) by (cases v) auto
  have dw: "dropWhile is_whitespace (v @ rest) = v @ rest"
    using digit_not_whitespace[OF c] by (simp add: v)
  have sign: "c \<noteq> 0x2D" "c \<noteq> 0x2B"
    using digit_not_sign[OF c] by simp_all
  show ?thesis
    using assms(1) sign takeWhile_digits[OF assms(2,3)]
    by (simp add: parseInt_def dw Let_def) (simp add: v)
qed

lemma NUMBER_REGEX_undefined: "\<not> NUMBER_REGEX_test (ToString None)"
  by (simp add: NUMBER_REGEX_test_def ToString_def js_def is_digit_def)

lemmas token_eval =
  js_def dash_def equals_sign_def is_word_def is_digit_def line_terminator_def
  is_whitespace_def startsWith_def FLAG_REGEX_at_def flag_body_def ToString_def
  NUMBER_REGEX_test_def parseInt_def digits_value_def to_Number_def nearest_double_def
  exponent_of.simps parseFlagNoSchema_def
  parseFlagWithShema_def Let_def

lemmas run_eval =
  tiniargs_phases parse_all_def emitted_def finish_def validateSchema_def getProp_def
  object_prototype_keys_def typeof_def


section \<open>Schema validation against its specification\<close>


lemma map_filter_append: "List.map_filter f (xs @ ys) = List.map_filter f xs @ List.map_filter f ys"
  by (simp add: List.map_filter_def)

lemma in_set_map_filter: "c \<in> set (List.map_filter f xs) \<longleftrightarrow> Some c \<in> set (map f xs)"
  by (induction xs) (auto simp: List.map_filter_simps split: option.splits)

lemma validate_loop_scan:
  "validate_loop (set (map long before)) (set (List.map_filter short before)) ss
     = scan_entries before ss"
proof (induction ss arbitrary: before)
  case Nil
  show ?case by simp
next
  case (Cons s ss)
  have step: "validate_loop (insert (long s) (set (map long before)))
      (case short s of None \<Rightarrow> set (List.map_filter short before)
       | Some c \<Rightarrow> insert c (set (List.map_filter short before))) ss
     = scan_entries (before @ [s]) ss"
    using Cons.IH[of "before @ [s]"]
    by (cases "short s") (simp_all add: map_filter_append List.map_filter_simps)
  show ?case
    using step
    by (cases "short s"; cases "defaultValue s")
      (auto simp: entry_violation_def in_set_map_filter)
qed

lemma validateSchema_spec: "validateSchema S = spec_validateSchema S"
  using validate_loop_scan[of "[]" S]
  by (simp add: validateSchema_def spec_validateSchema_def List.map_filter_simps)

lemma scan_entries_Some:
  "scan_entries before ss = Some e \<Longrightarrow>
     \<exists>i<length ss. entry_violation (before @ take i ss) (ss ! i) = Some e
       \<and> (\<forall>j<i. entry_violation (before @ take j ss) (ss ! j) = None)"
proof (induction ss arbitrary: before)
  case Nil
  then show ?case by simp
next
  case (Cons s ss)
  show ?case
  proof (cases "entry_violation before s")
    case (Some e')
    with Cons.prems have "e' = e" by simp
    with Some show ?thesis by (intro exI[of _ 0]) simp
  next
    case None
    with Cons.prems have "scan_entries (before @ [s]) ss = Some e" by simp
    from Cons.IH[OF this] obtain i where i: "i < length ss"
      and v: "entry_violation ((before @ [s]) @ take i ss) (ss ! i) = Some e"
      and n: "\<forall>j<i. entry_violation ((before @ [s]) @ take j ss) (ss ! j) = None"
      by blast
    have "\<forall>j<Suc i. entry_violation (before @ take j (s # ss)) ((s # ss) ! j) = None"
    proof (intro allI impI)
      fix j assume "j < Suc i"
      then show "entry_violation (before @ take j (s # ss)) ((s # ss) ! j) = None"
        using None n by (cases j) auto
    qed
    with i v show ?thesis by (intro exI[of _ "Suc i"]) simp
  qed
qed

lemma scan_entries_None:
  "scan_entries before ss = None \<longleftrightarrow>
     (\<forall>s\<in>set ss. entry_violation [] s = None)
     \<and> distinct (map long ss) \<and> set (map long ss) \<inter> set (map long before) = {}
     \<and> distinct (List.map_filter short ss)
     \<and> set (List.map_filter short ss) \<inter> set (List.map_filter short before) = {}"
proof (induction ss arbitrary: before)
  case Nil
  show ?case by (simp add: List.map_filter_simps)
next
  case (Cons s ss)
  have ev: "entry_violation before s = None \<longleftrightarrow>
      entry_violation [] s = None \<and> long s \<notin> set (map long before)
      \<and> (case short s of None \<Rightarrow> True | Some c \<Rightarrow> c \<notin> set (List.map_filter short before))"
    by (cases "short s"; cases "defaultValue s")
      (auto simp: entry_violation_def in_set_map_filter)
  have unfold: "scan_entries before (s # ss) = None
      \<longleftrightarrow> entry_violation before s = None \<and> scan_entries (before @ [s]) ss = None"
    by (simp split: option.splits)
  show ?case
    unfolding unfold Cons.IH ev
    by (cases "short s") (auto simp: List.map_filter_simps map_filter_append)
qed


lemma validateSchema_Inr_iff:
  "(\<exists>V. validateSchema S = Inr V) \<longleftrightarrow>
     (\<forall>s\<in>set S. entry_violation [] s = None) \<and> distinct (map long S)
     \<and> distinct (List.map_filter short S)"
  using scan_entries_None[of "[]" S]
  by (auto simp: validateSchema_spec spec_validateSchema_def List.map_filter_simps
      split: option.splits)

lemma validateSchema_Inr_same: "validateSchema S = Inr V \<Longrightarrow> V = S"
  by (auto simp: validateSchema_def split: option.splits)

lemma mset_map_filter:
  "mset S = mset S' \<Longrightarrow> mset (List.map_filter f S) = mset (List.map_filter f S')"
  by (simp add: List.map_filter_def)


lemmas schema_eval = validateSchema_def flag_entry_def js_def typeof_def


section \<open>Tokens under a validated schema\<close>


lemma valid_schema_facts:
  assumes "validateSchema S = Inr S"
  shows "distinct (map long S)" "distinct (List.map_filter short S)"
    "\<forall>s\<in>set S. entry_violation [] s = None"
  using assms validateSchema_Inr_iff[of S] by blast+

lemma valid_entry_long: "entry_violation [] e = None \<Longrightarrow> long e \<noteq> []"
  by (auto simp: entry_violation_def split: if_splits)

lemma find_by_long:
  "distinct (map long S) \<Longrightarrow> e \<in> set S \<Longrightarrow> find (\<lambda>s. long s = long e) S = Some e"
  by (induction S) (auto simp: image_iff)

lemma find_by_short:
  "distinct (List.map_filter short S) \<Longrightarrow> e \<in> set S \<Longrightarrow> short e = Some c
     \<Longrightarrow> find (\<lambda>s. short s = Some c) S = Some e"
proof (induction S)
  case Nil
  then show ?case by simp
next
  case (Cons s S)
  show ?case
  proof (cases "short s = Some c")
    case True
    have "c \<notin> set (List.map_filter short S)"
      using Cons.prems(1) True by (simp add: List.map_filter_simps)
    then have "\<forall>x\<in>set S. short x \<noteq> Some c"
      by (auto simp: in_set_map_filter image_iff)
    with Cons.prems(2,3) have "e = s" by auto
    with True show ?thesis by simp
  next
    case False
    with Cons.prems have "e \<in> set S" and "distinct (List.map_filter short S)"
      by (auto simp: List.map_filter_simps split: option.splits)
    with Cons.IH Cons.prems(3) False show ?thesis by simp
  qed
qed

lemma find_short_None: "find (\<lambda>s. short s = Some c) S = None \<longleftrightarrow> (\<forall>e\<in>set S. short e \<noteq> Some c)"
  by (auto simp: find_None_iff)

lemma tiniargs_token_error:
  assumes "validateSchema S = Inr S" "\<forall>a\<in>set pre. \<exists>b. parseFlagWithShema S a = Inr b"
    "parseFlagWithShema S tok = Inl e"
  shows "tiniargs (pre @ tok # post) (Some S) = Inl e"
  by (simp add: tiniargs_phases parse_all_def assms(1) emitted_first_error[OF assms(2,3)])

lemma tiniargs_stores_pair:
  assumes "tiniargs args (Some S) = Inr r" "validateSchema S = Inr S" "tok \<in> set args"
    "parseFlagWithShema S tok = Inr xs" "Some (k, v) \<in> set xs"
  shows "flags r k = Some v"
proof -
  from assms(1) obtain ps fl where ps: "parse_all (Some S) args = Inr ps"
    and fl: "merge_loop Map.empty ps = Inr fl" and fin: "finish args (Some S) fl = Inr r"
    by (rule tiniargs_result)
  from ps have "emitted (parseFlagWithShema S) args = Inr ps"
    by (simp add: parse_all_def assms(2))
  then have "(k, v) \<in> set ps"
    using assms(3,4,5) by (rule emitted_member)
  with fl have "fl k = Some v" by (rule merge_loop_stores)
  then show ?thesis by (rule finish_result(2)[OF fin])
qed

lemma long_token_match:
  assumes "k \<noteq> []" "list_all is_word k"
  shows "FLAG_REGEX_match (js ''--'' @ k @ js ''='' @ v)
           = Some (k, Some (takeWhile (\<lambda>c. \<not> line_terminator c) v))"
    and "FLAG_REGEX_match (js ''--'' @ k @ js ''='') = Some (k, Some [])"
    and "FLAG_REGEX_match (js ''--'' @ k) = Some (k, None)"
proof -
  have "FLAG_REGEX_match (dash # dash # k @ equals_sign # w) = flag_body (k @ equals_sign # w)"
    for w
    using starts_word_append[OF assms] by (rule FLAG_REGEX_match_dash(2))
  then show "FLAG_REGEX_match (js ''--'' @ k @ js ''='' @ v)
           = Some (k, Some (takeWhile (\<lambda>c. \<not> line_terminator c) v))"
    and "FLAG_REGEX_match (js ''--'' @ k @ js ''='') = Some (k, Some [])"
    using flag_body_key[OF assms, of "equals_sign # _"] by simp_all
  have "FLAG_REGEX_match (dash # dash # k @ []) = flag_body (k @ [])"
    using starts_word_append[OF assms] by (rule FLAG_REGEX_match_dash(2))
  then show "FLAG_REGEX_match (js ''--'' @ k) = Some (k, None)"
    using flag_body_key[OF assms, of "[]"] by simp
qed

lemma long_token_starts: "startsWith (js ''--'' @ w) (js ''--'')"
  by (simp add: startsWith_def)

lemma takeWhile_all: "list_all P v \<Longrightarrow> takeWhile P v = v"
  by (simp add: list_all_iff)

lemma parse_short_form:
  assumes "FLAG_REGEX_match tok = Some (key, val)" "\<not> startsWith tok (js ''--'')"
  shows "parseFlagWithShema S tok = short_loop S val [] key"
  using assms(2) by (simp add: parseFlagWithShema_def assms(1))

lemma parse_long_string:
  assumes "FLAG_REGEX_match tok = Some (key, val)" "startsWith tok (js ''--'')"
    and "find (\<lambda>s. long s = key) S = Some e" "valueType e = js ''string''"
  shows "parseFlagWithShema S tok =
     (case val of
        None \<Rightarrow> Inl (FlagParseError (ExpectedString key) key None)
      | Some v \<Rightarrow> if v = [] then Inl (FlagParseError (ExpectedString key) key (Some []))
                  else Inr [Some (long e, StrV v)])"
proof -
  have "valueType e \<noteq> js ''number''" "valueType e \<noteq> js ''boolean''"
    by (simp_all add: assms(4) js_def)
  then show ?thesis
    using assms(2) by (simp add: parseFlagWithShema_def assms(1,3,4) split: option.splits)
qed

lemma parse_long_number:
  assumes "FLAG_REGEX_match tok = Some (key, val)" "startsWith tok (js ''--'')"
    and "find (\<lambda>s. long s = key) S = Some e" "valueType e = js ''number''"
  shows "parseFlagWithShema S tok =
     (case parseInt (ToString val) of
        None \<Rightarrow> Inl (FlagParseError (FailedToParseNumeric key val) key val)
      | Some n \<Rightarrow> Inr [Some (long e, NumV n)])"
  using assms(2) by (simp add: parseFlagWithShema_def assms(1,3,4))


lemma no_schema_captured:
  assumes "FLAG_REGEX_match tok = Some (key, Some v)"
  shows "parseFlagNoSchema tok =
     [Some (key, if v \<noteq> [] \<and> list_all is_digit v then NumV (to_Number False (digits_value v)) else StrV v)]"
  using parseInt_digits[of v "[]"]
  by (auto simp: parseFlagNoSchema_def assms ToString_def NUMBER_REGEX_test_def)


lemma short_loop_Inr:
  "short_loop S val acc cs = Inr ps \<Longrightarrow>
     \<exists>qs. ps = acc @ qs \<and> length qs = length cs \<and> None \<notin> set qs"
proof (induction cs arbitrary: acc)
  case Nil
  then show ?case by simp
next
  case (Cons c cs)
  from Cons.prems
  have "\<exists>fs::FlagSchema. short_loop S val (acc @ [Some (long fs, BoolV True)]) cs = Inr ps"
    by (auto split: option.splits if_splits)
  then obtain fs :: FlagSchema where
    rest: "short_loop S val (acc @ [Some (long fs, BoolV True)]) cs = Inr ps"
    by blast
  from Cons.IH[OF rest] obtain qs where
    "ps = (acc @ [Some (long fs, BoolV True)]) @ qs" "length qs = length cs" "None \<notin> set qs"
    by blast
  then show ?case
    by (intro exI[of _ "Some (long fs, BoolV True) # qs"]) simp
qed

lemma valid_entry_type:
  "entry_violation [] e = None \<Longrightarrow>
     valueType e = js ''string'' \<or> valueType e = js ''boolean'' \<or> valueType e = js ''number''"
  by (auto simp: entry_violation_def split: if_splits)

lemma flag_body_key_nonempty: "flag_body t = Some (k, v) \<Longrightarrow> k \<noteq> []"
  by (auto simp: flag_body_def Let_def split: if_splits)

lemma FLAG_REGEX_at_key_nonempty: "FLAG_REGEX_at s = Some (k, v) \<Longrightarrow> k \<noteq> []"
  unfolding FLAG_REGEX_at_def
  by (auto split: list.splits if_splits option.splits dest: flag_body_key_nonempty)

lemma FLAG_REGEX_match_key_nonempty: "FLAG_REGEX_match s = Some (k, v) \<Longrightarrow> k \<noteq> []"
proof (induction s)
  case Nil
  then show ?case by simp
next
  case (Cons c s)
  show ?case
  proof (cases "FLAG_REGEX_at (c # s)")
    case None
    with Cons show ?thesis by simp
  next
    case (Some m)
    with Cons.prems have "FLAG_REGEX_at (c # s) = Some (k, v)" by simp
    then show ?thesis by (rule FLAG_REGEX_at_key_nonempty)
  qed
qed

lemma parse_long_boolean:
  assumes "FLAG_REGEX_match tok = Some (key, val)" "startsWith tok (js ''--'')"
    and "find (\<lambda>s. long s = key) S = Some e" "valueType e = js ''boolean''"
  shows "parseFlagWithShema S tok =
     (case val of
        None \<Rightarrow> Inr [Some (long e, BoolV True)]
      | Some v \<Rightarrow>
          if v \<noteq> [] \<and> v \<noteq> js ''true'' \<and> v \<noteq> js ''false''
          then Inl (FlagParseError (InvalidBooleanValue v key) key val)
          else Inr [Some (long e, BoolV (v = [] \<or> v = js ''true''))])"
proof -
  have "valueType e \<noteq> js ''number''"
    by (simp add: assms(4) js_def)
  then show ?thesis
    using assms(2) by (simp add: parseFlagWithShema_def assms(1,3,4))
qed

lemma matched_token_not_dropped:
  assumes "validateSchema S = Inr S" "dash_then_word tok" "parseFlagWithShema S tok = Inr ps"
  shows "ps \<noteq> [] \<and> None \<notin> set ps"
proof -
  obtain key val where m: "FLAG_REGEX_match tok = Some (key, val)"
    using assms(2) FLAG_REGEX_match_None[of tok] by (cases "FLAG_REGEX_match tok") auto
  have key: "key \<noteq> []"
    using m by (rule FLAG_REGEX_match_key_nonempty)
  show ?thesis
  proof (cases "startsWith tok (js ''--'')")
    case False
    then have "short_loop S val [] key = Inr ps"
      using assms(3) parse_short_form[OF m] by simp
    from short_loop_Inr[OF this] key show ?thesis by auto
  next
    case True
    have "find (\<lambda>s. long s = key) S \<noteq> None"
    proof
      assume "find (\<lambda>s. long s = key) S = None"
      then have "parseFlagWithShema S tok = Inl (UnknownFlagError key False)"
        using True by (simp add: parseFlagWithShema_def m)
      with assms(3) show False by simp
    qed
    then obtain e where f: "find (\<lambda>s. long s = key) S = Some e"
      by blast
    then have "e \<in> set S"
      by (auto simp: find_Some_iff)
    then have "entry_violation [] e = None"
      using valid_schema_facts(3)[OF assms(1)] by blast
    then consider "valueType e = js ''string''" | "valueType e = js ''boolean''"
      | "valueType e = js ''number''"
      using valid_entry_type by blast
    then show ?thesis
    proof cases
      case 1
      show ?thesis
        using assms(3) unfolding parse_long_string[OF m True f 1]
        by (auto split: option.splits if_splits)
    next
      case 2
      show ?thesis
        using assms(3) unfolding parse_long_boolean[OF m True f 2]
        by (auto split: option.splits if_splits)
    next
      case 3
      show ?thesis
        using assms(3) unfolding parse_long_number[OF m True f 3]
        by (auto split: option.splits)
    qed
  qed
qed

text \<open>A long name with a character outside \<open>\w\<close> passes the validator, but the key of a
  token ends at that character, so no token selects the entry.\<close>

lemma long_name_outside_the_key_pattern:
  "validateSchema [flag_entry ''dry-run'' ''d'' ''boolean'']
     = Inr [flag_entry ''dry-run'' ''d'' ''boolean'']
   \<and> tiniargs [js ''--dry-run''] (Some [flag_entry ''dry-run'' ''d'' ''boolean''])
     = Inl (UnknownFlagError (js ''dry'') False)"
  by (simp add: token_eval run_eval flag_entry_def)

section \<open>Merging, requiredness and defaults\<close>







lemma required_loop_all_present:
  "\<forall>s\<in>set ss. getProp fl (long s) \<noteq> None \<Longrightarrow> required_loop fl ss = None"
  by (induction ss) auto











lemma tiniargs_single_token:
  assumes "validateSchema S = Inr S" "startsWith tok (js ''-'')"
    and "parseFlagWithShema S tok = Inr [Some (k, v)]"
    and "k \<notin> set object_prototype_keys"
    and "\<forall>s\<in>set S. required s = Some True \<longrightarrow> long s = k"
  shows "\<exists>r. tiniargs [tok] (Some S) = Inr r \<and> positionals r = [] \<and> flags r k = Some v"
proof -
  have pa: "parse_all (Some S) [tok] = Inr [(k, v)]"
    by (simp add: parse_all_def assms(1) emitted_single assms(3))
  have gp: "getProp Map.empty k = None"
    using assms(4) by (simp add: getProp_def)
  have "\<forall>s\<in>set (filter (\<lambda>s. required s = Some True) S). getProp [k \<mapsto> v] (long s) \<noteq> None"
    using assms(5) by (auto simp: getProp_def)
  then have rq: "required_loop [k \<mapsto> v] (filter (\<lambda>s. required s = Some True) S) = None"
    by (rule required_loop_all_present)
  have dl: "default_loop [k \<mapsto> v] ss k = Some v" for ss
    by (rule default_loop_preserves) simp
  show ?thesis
    using assms(2) by (simp add: tiniargs_phases pa gp finish_def rq dl)
qed

text \<open>A key that names a member of \<open>Object.prototype\<close> is never read as \<open>undefined\<close>:
  its first occurrence already raises the duplicate error, with the inherited member as
  the first value.\<close>

lemma inherited_name_is_a_duplicate:
  "tiniargs [js ''--toString''] None
     = Inl (DuplicateFlagError (js ''toString'') (Inherited (js ''toString'')) (BoolV True))"
  by (simp add: token_eval run_eval)


section \<open>A token with a dash inside\<close>



section \<open>Values without a schema\<close>

text \<open>
  Claim C2, as the code has it. Without a schema, a token whose match has no \<open>=value\<close>
  part emits \<open>(key, true)\<close>; a token whose captured value is the empty string
  (\<open>--flag=\<close>) emits \<open>(key, "")\<close>, the empty string and not \<open>true\<close>, because \<open>??\<close> only
  replaces \<open>undefined\<close>; a captured value that matches \<open>^\d+$\<close> emits the number that
  \<open>parseInt\<close> returns for it, the double nearest to the integer that the digits denote
  (the integer itself below \<open>2^53\<close>); any other captured value is emitted as the string
  it is.
\<close>

theorem no_schema_value_coercion:
  assumes "FLAG_REGEX_match tok = Some (key, val)"
  shows "(val = None \<longrightarrow> parseFlagNoSchema tok = [Some (key, BoolV True)])
    \<and> (val = Some [] \<longrightarrow> parseFlagNoSchema tok = [Some (key, StrV [])])
    \<and> (\<forall>v. val = Some v \<and> v \<noteq> [] \<and> list_all is_digit v \<longrightarrow>
          parseFlagNoSchema tok = [Some (key, NumV (to_Number False (digits_value v)))])
    \<and> (\<forall>v. val = Some v \<and> \<not> list_all is_digit v \<longrightarrow>
          parseFlagNoSchema tok = [Some (key, StrV v)])"
proof -
  have "parseFlagNoSchema tok = [Some (key, NumV (to_Number False (digits_value v)))]"
    if "val = Some v" "v \<noteq> []" "list_all is_digit v" for v
    using that parseInt_digits[of v "[]"]
    by (simp add: parseFlagNoSchema_def assms ToString_def NUMBER_REGEX_test_def)
  then show ?thesis
    using NUMBER_REGEX_undefined
    by (auto simp: parseFlagNoSchema_def assms ToString_def NUMBER_REGEX_test_def)
qed

theorem no_schema_value_coercion_witness:
  "FLAG_REGEX_match (js ''--flag'') = Some (js ''flag'', None)
   \<and> parseFlagNoSchema (js ''--flag'') = [Some (js ''flag'', BoolV True)]
   \<and> FLAG_REGEX_match (js ''--flag='') = Some (js ''flag'', Some [])
   \<and> parseFlagNoSchema (js ''--flag='') = [Some (js ''flag'', StrV [])]
   \<and> FLAG_REGEX_match (js ''--something_else=128'') = Some (js ''something_else'', Some (js ''128''))
   \<and> js ''128'' \<noteq> [] \<and> list_all is_digit (js ''128'')
   \<and> parseFlagNoSchema (js ''--something_else=128'') = [Some (js ''something_else'', NumV (Finite False 128))]
   \<and> FLAG_REGEX_match (js ''--testing=test'') = Some (js ''testing'', Some (js ''test''))
   \<and> \<not> list_all is_digit (js ''test'')
   \<and> parseFlagNoSchema (js ''--testing=test'') = [Some (js ''testing'', StrV (js ''test''))]
   \<and> FLAG_REGEX_match (js ''--n=9007199254740993'') = Some (js ''n'', Some (js ''9007199254740993''))
   \<and> js ''9007199254740993'' \<noteq> [] \<and> list_all is_digit (js ''9007199254740993'')
   \<and> parseFlagNoSchema (js ''--n=9007199254740993'')
       = [Some (js ''n'', NumV (Finite False 9007199254740992))]"
proof -
  have m1: "FLAG_REGEX_match (js ''--flag'') = Some (js ''flag'', None)"
    and m2: "FLAG_REGEX_match (js ''--flag='') = Some (js ''flag'', Some [])"
    and m3: "FLAG_REGEX_match (js ''--something_else=128'')
               = Some (js ''something_else'', Some (js ''128''))"
    and m4: "FLAG_REGEX_match (js ''--testing=test'') = Some (js ''testing'', Some (js ''test''))"
    and m5: "FLAG_REGEX_match (js ''--n=9007199254740993'')
               = Some (js ''n'', Some (js ''9007199254740993''))"
    by (simp_all add: token_eval)
  have d3: "js ''128'' \<noteq> []" "list_all is_digit (js ''128'')"
    "to_Number False (digits_value (js ''128'')) = Finite False 128"
    and d4: "\<not> list_all is_digit (js ''test'')"
    and d5: "js ''9007199254740993'' \<noteq> []" "list_all is_digit (js ''9007199254740993'')"
    "to_Number False (digits_value (js ''9007199254740993'')) = Finite False 9007199254740992"
    by (simp_all add: js_def is_digit_def digits_value_def to_Number_def nearest_double_def
        exponent_of.simps)
  show ?thesis
    using m1 m2 m3 m4 m5 d3 d4 d5
      no_schema_value_coercion[OF m1] no_schema_value_coercion[OF m2]
      no_schema_value_coercion[OF m3] no_schema_value_coercion[OF m4]
      no_schema_value_coercion[OF m5]
    by simp
qed

text \<open>The claim as written says that \<open>--flag=\<close> emits \<open>(flag, true)\<close> like \<open>--flag\<close> does.
  It emits the empty string. And the number emitted for a run of digits is a double:
  for \<open>9007199254740993\<close> it is \<open>9007199254740992\<close>.\<close>

theorem empty_value_is_not_true_counterexample:
  "parseFlagNoSchema (js ''--flag='') = [Some (js ''flag'', StrV [])]
   \<and> parseFlagNoSchema (js ''--flag'') = [Some (js ''flag'', BoolV True)]
   \<and> parseFlagNoSchema (js ''--flag='') \<noteq> parseFlagNoSchema (js ''--flag'')
   \<and> tiniargs [js ''--flag=''] None = Inr \<lparr>positionals = [], flags = [js ''flag'' \<mapsto> StrV []]\<rparr>
   \<and> parseFlagNoSchema (js ''--n=9007199254740993'')
       = [Some (js ''n'', NumV (Finite False 9007199254740992))]"
  by (simp add: token_eval run_eval)


section \<open>Tokens that are dropped\<close>

text \<open>
  Claim C1, as the code has it. A token that begins with a dash is dropped exactly when
  no dash in it is directly followed by a word character (\<open>-\<close>, \<open>--\<close>, \<open>--=x\<close>): then it
  emits nothing in either mode, is no positional, raises nothing, and the run is the run
  without the token. A token that begins with a dash and has such a dash is matched by
  the pattern, which has no anchor: without a schema it emits a pair, and with a
  validated schema it raises an error or emits at least one pair.
\<close>

theorem dash_token_dropped:
  assumes "startsWith tok (js ''-'')"
  shows "(\<not> dash_then_word tok \<longrightarrow>
            parseFlagNoSchema tok = [None]
          \<and> parseFlagWithShema S tok = Inr [None]
          \<and> tiniargs (pre @ tok # post) schema = tiniargs (pre @ post) schema)
    \<and> (dash_then_word tok \<longrightarrow>
          (\<exists>key v. parseFlagNoSchema tok = [Some (key, v)])
          \<and> (validateSchema S = Inr S \<and> parseFlagWithShema S tok = Inr ps \<longrightarrow>
               ps \<noteq> [] \<and> None \<notin> set ps))"
proof (intro conjI impI)
  assume ndw: "\<not> dash_then_word tok"
  then have m: "FLAG_REGEX_match tok = None"
    by (simp add: FLAG_REGEX_match_None)
  show ns: "parseFlagNoSchema tok = [None]"
    by (simp add: parseFlagNoSchema_def m)
  have ws: "parseFlagWithShema S' tok = Inr [None]" for S'
    by (simp add: parseFlagWithShema_def m)
  then show "parseFlagWithShema S tok = Inr [None]" .
  have pa: "parse_all schema (pre @ tok # post) = parse_all schema (pre @ post)"
    by (simp add: parse_all_def emitted_drop_token ns ws split: option.splits sum.splits)
  have "filter (\<lambda>a. \<not> startsWith a (js ''-'')) (pre @ tok # post)
      = filter (\<lambda>a. \<not> startsWith a (js ''-'')) (pre @ post)"
    using assms by simp
  then have fin: "finish (pre @ tok # post) schema fl = finish (pre @ post) schema fl" for fl
    unfolding finish_def by (simp only:)
  show "tiniargs (pre @ tok # post) schema = tiniargs (pre @ post) schema"
    by (simp add: tiniargs_phases pa fin cong: sum.case_cong)
next
  assume "dash_then_word tok"
  then obtain key val where "FLAG_REGEX_match tok = Some (key, val)"
    using FLAG_REGEX_match_None[of tok] by (cases "FLAG_REGEX_match tok") auto
  then show "\<exists>key v. parseFlagNoSchema tok = [Some (key, v)]"
    by (simp add: parseFlagNoSchema_def split: option.splits)
next
  assume "dash_then_word tok" "validateSchema S = Inr S \<and> parseFlagWithShema S tok = Inr ps"
  then have "ps \<noteq> [] \<and> None \<notin> set ps"
    using matched_token_not_dropped[of S tok ps] by blast
  then show "ps \<noteq> []" and "None \<notin> set ps"
    by simp_all
qed

theorem dash_token_dropped_witness:
  "startsWith (js ''--=x'') (js ''-'') \<and> \<not> dash_then_word (js ''--=x'')
   \<and> parseFlagNoSchema (js ''--=x'') = [None]
   \<and> tiniargs [js ''server'', js ''--=x'', js ''--testflag''] None
       = tiniargs [js ''server'', js ''--testflag''] None
   \<and> tiniargs [js ''server'', js ''--testflag''] None
       = Inr \<lparr>positionals = [js ''server''], flags = [js ''testflag'' \<mapsto> BoolV True]\<rparr>
   \<and> startsWith (js ''-l!'') (js ''-'') \<and> dash_then_word (js ''-l!'')
   \<and> parseFlagNoSchema (js ''-l!'') = [Some (js ''l'', BoolV True)]
   \<and> validateSchema [flag_entry ''testflag'' ''l'' ''boolean'']
       = Inr [flag_entry ''testflag'' ''l'' ''boolean'']
   \<and> parseFlagWithShema [flag_entry ''testflag'' ''l'' ''boolean''] (js ''-l!'')
       = Inr [Some (js ''testflag'', BoolV True)]
   \<and> [Some (js ''testflag'', BoolV True)] \<noteq> []
   \<and> None \<notin> set [Some (js ''testflag'', BoolV True)]"
proof -
  let ?S = "[flag_entry ''testflag'' ''l'' ''boolean'']"
  have h1: "startsWith (js ''--=x'') (js ''-'')" and h2: "\<not> dash_then_word (js ''--=x'')"
    and h3: "startsWith (js ''-l!'') (js ''-'')" and h4: "dash_then_word (js ''-l!'')"
    by (simp_all add: js_def dash_def equals_sign_def is_word_def startsWith_def)
  have r: "tiniargs [js ''server'', js ''--testflag''] None
       = Inr \<lparr>positionals = [js ''server''], flags = [js ''testflag'' \<mapsto> BoolV True]\<rparr>"
    by (simp add: token_eval run_eval)
  have v: "validateSchema ?S = Inr ?S"
    by (simp add: schema_eval)
  have p: "parseFlagNoSchema (js ''-l!'') = [Some (js ''l'', BoolV True)]"
    and q: "parseFlagWithShema ?S (js ''-l!'') = Inr [Some (js ''testflag'', BoolV True)]"
    by (simp_all add: token_eval flag_entry_def)
  show ?thesis
    using h1 h2 h3 h4 r v p q
      dash_token_dropped[OF h1, of _ "[js ''server'']" "[js ''--testflag'']" None]
      dash_token_dropped[OF h3, where S = ?S and ps = "[Some (js ''testflag'', BoolV True)]"]
    by simp
qed

text \<open>The claim as written drops every dash-initial token outside the anchored grammar.
  \<open>-abc!\<close> and \<open>---foo\<close> are outside it and are parsed as the flags \<open>abc\<close> and \<open>foo\<close>.\<close>

theorem malformed_dash_token_counterexample:
  "startsWith (js ''-abc!'') (js ''-'')
   \<and> parseFlagNoSchema (js ''-abc!'') = [Some (js ''abc'', BoolV True)]
   \<and> tiniargs [js ''-abc!''] None = Inr \<lparr>positionals = [], flags = [js ''abc'' \<mapsto> BoolV True]\<rparr>
   \<and> startsWith (js ''---foo'') (js ''-'')
   \<and> parseFlagNoSchema (js ''---foo'') = [Some (js ''foo'', BoolV True)]
   \<and> tiniargs [js ''---foo''] None = Inr \<lparr>positionals = [], flags = [js ''foo'' \<mapsto> BoolV True]\<rparr>
   \<and> tiniargs [js ''---foo''] (Some [flag_entry ''testflag'' ''l'' ''boolean''])
       = Inl (UnknownFlagError (js ''foo'') False)"
  by (simp add: token_eval run_eval flag_entry_def)

section \<open>Schema validation\<close>

text \<open>
  Claim C4. \<open>validateSchema\<close> is the validator of the specification: it goes through the
  entries in input order and applies to each the six checks in their priority (long name
  longer than one character, long name not seen before, short name of length one when
  present, short name not seen before, type of the default equal to the value type, value
  type one of the three tags); the first check that fails on the first entry that has a
  failing check is the error. When the schema fails, \<open>tiniargs\<close> fails with that error
  whatever the arguments are, and a schema that passes is returned as it was given.
\<close>

theorem validateSchema_check_order:
  "validateSchema S = spec_validateSchema S
   \<and> (validateSchema S = Inl e \<longrightarrow> tiniargs args (Some S) = Inl e)
   \<and> (validateSchema S = Inr V \<longrightarrow> V = S)"
  by (auto simp: validateSchema_spec[symmetric] tiniargs_phases parse_all_def
      dest: validateSchema_Inr_same)

theorem validateSchema_check_order_witness:
  "validateSchema [flag_entry ''long'' ''l'' ''boolean'', flag_entry ''other'' ''ll'' ''flagval'',
       flag_entry ''x'' ''y'' ''boolean'']
     = Inl (SchemaValidationError (InvalidShortFlag (js ''other'')))
   \<and> spec_validateSchema [flag_entry ''long'' ''l'' ''boolean'',
       flag_entry ''other'' ''ll'' ''flagval'', flag_entry ''x'' ''y'' ''boolean'']
     = Inl (SchemaValidationError (InvalidShortFlag (js ''other'')))
   \<and> tiniargs [js ''--unknown'', js ''--long=maybe'']
       (Some [flag_entry ''long'' ''l'' ''boolean'', flag_entry ''other'' ''ll'' ''flagval'',
          flag_entry ''x'' ''y'' ''boolean''])
     = Inl (SchemaValidationError (InvalidShortFlag (js ''other'')))
   \<and> validateSchema [flag_entry ''long'' ''l'' ''boolean'', flag_entry ''other'' ''o'' ''string'']
     = Inr [flag_entry ''long'' ''l'' ''boolean'', flag_entry ''other'' ''o'' ''string'']"
proof -
  have bad: "validateSchema [flag_entry ''long'' ''l'' ''boolean'',
       flag_entry ''other'' ''ll'' ''flagval'', flag_entry ''x'' ''y'' ''boolean'']
     = Inl (SchemaValidationError (InvalidShortFlag (js ''other'')))"
    by (simp add: schema_eval)
  have ok: "validateSchema [flag_entry ''long'' ''l'' ''boolean'', flag_entry ''other'' ''o'' ''string'']
     = Inr [flag_entry ''long'' ''l'' ''boolean'', flag_entry ''other'' ''o'' ''string'']"
    by (simp add: schema_eval)
  show ?thesis
    using bad ok
      validateSchema_check_order[of "[flag_entry ''long'' ''l'' ''boolean'',
        flag_entry ''other'' ''ll'' ''flagval'', flag_entry ''x'' ''y'' ''boolean'']"
        "SchemaValidationError (InvalidShortFlag (js ''other''))"
        "[js ''--unknown'', js ''--long=maybe'']"]
    by simp
qed


text \<open>
  Claim C8. Whether a schema passes does not depend on the order of its entries: a
  schema and any permutation of it both pass or both fail. When a schema fails, the
  error is the violation of the first entry, in input order, that has one given the
  entries before it. A schema that passes is returned unchanged, so validating the result
  again returns it again.
\<close>

theorem validateSchema_permutation_idempotent:
  "(mset S = mset S' \<longrightarrow>
      ((\<exists>V. validateSchema S = Inr V) \<longleftrightarrow> (\<exists>V. validateSchema S' = Inr V)))
   \<and> (validateSchema S = Inl e \<longrightarrow>
        (\<exists>i<length S. entry_violation (take i S) (S ! i) = Some e
           \<and> (\<forall>j<i. entry_violation (take j S) (S ! j) = None)))
   \<and> (validateSchema S = Inr V \<longrightarrow> V = S \<and> validateSchema V = Inr V)"
proof (intro conjI impI)
  assume eq: "mset S = mset S'"
  have "set S = set S'"
    using eq by (rule mset_eq_setD)
  moreover have "distinct (map long S) \<longleftrightarrow> distinct (map long S')"
    using eq by (intro mset_eq_imp_distinct_iff) simp
  moreover have "distinct (List.map_filter short S) \<longleftrightarrow> distinct (List.map_filter short S')"
    using eq by (intro mset_eq_imp_distinct_iff mset_map_filter)
  ultimately show "(\<exists>V. validateSchema S = Inr V) \<longleftrightarrow> (\<exists>V. validateSchema S' = Inr V)"
    unfolding validateSchema_Inr_iff by simp
next
  assume "validateSchema S = Inl e"
  then have "scan_entries [] S = Some e"
    by (simp add: validateSchema_spec spec_validateSchema_def split: option.splits)
  from scan_entries_Some[OF this]
  show "\<exists>i<length S. entry_violation (take i S) (S ! i) = Some e
           \<and> (\<forall>j<i. entry_violation (take j S) (S ! j) = None)"
    by simp
next
  assume v: "validateSchema S = Inr V"
  then show "V = S" by (rule validateSchema_Inr_same)
  with v show "validateSchema V = Inr V" by simp
qed

theorem validateSchema_permutation_witness:
  "mset [flag_entry ''long'' ''l'' ''boolean'', flag_entry ''longer'' ''l'' ''boolean'']
     = mset [flag_entry ''longer'' ''l'' ''boolean'', flag_entry ''long'' ''l'' ''boolean'']
   \<and> validateSchema [flag_entry ''long'' ''l'' ''boolean'', flag_entry ''longer'' ''l'' ''boolean'']
     = Inl (SchemaValidationError (DuplicateShortFlag (js ''l'')))
   \<and> validateSchema [flag_entry ''longer'' ''l'' ''boolean'', flag_entry ''long'' ''l'' ''boolean'']
     = Inl (SchemaValidationError (DuplicateShortFlag (js ''l'')))
   \<and> (\<exists>i<length [flag_entry ''long'' ''l'' ''boolean'', flag_entry ''longer'' ''l'' ''boolean''].
        entry_violation
          (take i [flag_entry ''long'' ''l'' ''boolean'', flag_entry ''longer'' ''l'' ''boolean''])
          ([flag_entry ''long'' ''l'' ''boolean'', flag_entry ''longer'' ''l'' ''boolean''] ! i)
        = Some (SchemaValidationError (DuplicateShortFlag (js ''l''))))
   \<and> mset [flag_entry ''long'' ''l'' ''boolean'', flag_entry ''other'' ''o'' ''string'']
     = mset [flag_entry ''other'' ''o'' ''string'', flag_entry ''long'' ''l'' ''boolean'']
   \<and> validateSchema [flag_entry ''long'' ''l'' ''boolean'', flag_entry ''other'' ''o'' ''string'']
     = Inr [flag_entry ''long'' ''l'' ''boolean'', flag_entry ''other'' ''o'' ''string'']
   \<and> (\<exists>V. validateSchema [flag_entry ''other'' ''o'' ''string'', flag_entry ''long'' ''l'' ''boolean'']
         = Inr V)"
proof -
  have p1: "mset [flag_entry ''long'' ''l'' ''boolean'', flag_entry ''longer'' ''l'' ''boolean'']
     = mset [flag_entry ''longer'' ''l'' ''boolean'', flag_entry ''long'' ''l'' ''boolean'']"
    and p2: "mset [flag_entry ''long'' ''l'' ''boolean'', flag_entry ''other'' ''o'' ''string'']
     = mset [flag_entry ''other'' ''o'' ''string'', flag_entry ''long'' ''l'' ''boolean'']"
    by simp_all
  have bad: "validateSchema [flag_entry ''long'' ''l'' ''boolean'',
       flag_entry ''longer'' ''l'' ''boolean'']
     = Inl (SchemaValidationError (DuplicateShortFlag (js ''l'')))"
    and bad': "validateSchema [flag_entry ''longer'' ''l'' ''boolean'',
       flag_entry ''long'' ''l'' ''boolean'']
     = Inl (SchemaValidationError (DuplicateShortFlag (js ''l'')))"
    and ok: "validateSchema [flag_entry ''long'' ''l'' ''boolean'', flag_entry ''other'' ''o'' ''string'']
     = Inr [flag_entry ''long'' ''l'' ''boolean'', flag_entry ''other'' ''o'' ''string'']"
    by (simp_all add: schema_eval)
  show ?thesis
    using p1 p2 bad bad' ok
      validateSchema_permutation_idempotent[of
        "[flag_entry ''long'' ''l'' ''boolean'', flag_entry ''longer'' ''l'' ''boolean'']"
        "[flag_entry ''longer'' ''l'' ''boolean'', flag_entry ''long'' ''l'' ''boolean'']"
        "SchemaValidationError (DuplicateShortFlag (js ''l''))"]
      validateSchema_permutation_idempotent[of
        "[flag_entry ''long'' ''l'' ''boolean'', flag_entry ''other'' ''o'' ''string'']"
        "[flag_entry ''other'' ''o'' ''string'', flag_entry ''long'' ''l'' ''boolean'']" _
        "[flag_entry ''long'' ''l'' ''boolean'', flag_entry ''other'' ''o'' ''string'']"]
    by blast
qed

section \<open>Flags under a schema\<close>

text \<open>
  Claim C6, as the code has it. With a validated schema, a token that does not begin
  with two dashes and in which the flag pattern matches is read as a stack of short
  flags, one for each character \<open>c1...cn\<close> of the key that the match captures; for a
  token made of one dash and one or more word characters (the characters of \<open>\w\<close>) the
  key is all that follows the dash, and there is no captured value. When every character
  of the key is the short name of a schema entry whose value type is boolean, the token
  emits, character by character from left to right, the long name of that character's
  entry with \<open>true\<close>. When the characters before some \<open>c\<close> all are such and no entry has
  \<open>c\<close> as its short name, the token raises \<open>UnknownFlagError\<close> for \<open>c\<close> as a short flag;
  when \<open>c\<close> is the short name of an entry that is not boolean, it raises the
  \<open>FlagParseError\<close> of a non-boolean flag in short form, with key \<open>c\<close> and the captured
  value of the token. That error is the result of \<open>tiniargs\<close> when every token before
  this one parses.
\<close>

theorem short_flag_stack:
  assumes "validateSchema S = Inr S"
    and "FLAG_REGEX_match tok = Some (cs, val)" "\<not> startsWith tok (js ''--'')"
  shows
   "((\<forall>c\<in>set cs. \<exists>e\<in>set S. short e = Some [c] \<and> valueType e = js ''boolean'') \<longrightarrow>
      (\<exists>ps. parseFlagWithShema S tok = Inr ps
         \<and> list_all2 (\<lambda>c p. \<exists>e\<in>set S. short e = Some [c] \<and> p = Some (long e, BoolV True))
              cs ps))
  \<and> (\<forall>good c rest. cs = good @ c # rest
        \<and> (\<forall>g\<in>set good. \<exists>e\<in>set S. short e = Some [g] \<and> valueType e = js ''boolean'')
        \<and> (\<forall>e\<in>set S. short e \<noteq> Some [c]) \<longrightarrow>
       parseFlagWithShema S tok = Inl (UnknownFlagError [c] True)
       \<and> ((\<forall>a\<in>set pre. \<exists>b. parseFlagWithShema S a = Inr b) \<longrightarrow>
            tiniargs (pre @ tok # post) (Some S)
              = Inl (UnknownFlagError [c] True)))
  \<and> (\<forall>good c rest e. cs = good @ c # rest
        \<and> (\<forall>g\<in>set good. \<exists>e\<in>set S. short e = Some [g] \<and> valueType e = js ''boolean'')
        \<and> e \<in> set S \<and> short e = Some [c] \<and> valueType e \<noteq> js ''boolean'' \<longrightarrow>
       parseFlagWithShema S tok
         = Inl (FlagParseError (CannotSpecifyInShortForm (valueType e) (long e)) [c] val)
       \<and> ((\<forall>a\<in>set pre. \<exists>b. parseFlagWithShema S a = Inr b) \<longrightarrow>
            tiniargs (pre @ tok # post) (Some S)
              = Inl (FlagParseError (CannotSpecifyInShortForm (valueType e) (long e)) [c] val)))
  \<and> (ds \<noteq> [] \<and> list_all is_word ds \<longrightarrow>
       FLAG_REGEX_match (js ''-'' @ ds) = Some (ds, None)
       \<and> \<not> startsWith (js ''-'' @ ds) (js ''--''))"
proof -
  note facts = valid_schema_facts[OF assms(1)]
  have fs: "find (\<lambda>s. short s = Some c) S = Some e" if "e \<in> set S" "short e = Some c" for e c
    using facts(2) that by (rule find_by_short)
  have ws: "parseFlagWithShema S tok = short_loop S val [] cs"
    using assms(2,3) by (rule parse_short_form)
  have found: "\<forall>g\<in>set good. \<exists>e. find (\<lambda>s. short s = Some [g]) S = Some e
                 \<and> valueType e = js ''boolean''"
    if "\<forall>g\<in>set good. \<exists>e\<in>set S. short e = Some [g] \<and> valueType e = js ''boolean''" for good
    using that fs by blast
  have all_ok: "\<exists>ps. parseFlagWithShema S tok = Inr ps
         \<and> list_all2 (\<lambda>c p. \<exists>e\<in>set S. short e = Some [c] \<and> p = Some (long e, BoolV True)) cs ps"
    if h: "\<forall>c\<in>set cs. \<exists>e\<in>set S. short e = Some [c] \<and> valueType e = js ''boolean''"
  proof -
    let ?f = "\<lambda>c. Some (long (the (find (\<lambda>s. short s = Some [c]) S)), BoolV True)"
    have "parseFlagWithShema S tok = Inr (map ?f cs)"
      unfolding ws using short_loop_booleans[OF found[OF h], of val "[]"] by simp
    moreover have "list_all2 (\<lambda>c p. \<exists>e\<in>set S. short e = Some [c] \<and> p = Some (long e, BoolV True))
        cs (map ?f cs)"
      unfolding list_all2_map2
    proof (rule list_all2_same[THEN iffD2], intro ballI)
      fix c assume "c \<in> set cs"
      with h obtain e where e: "e \<in> set S" "short e = Some [c]" by blast
      then show "\<exists>e\<in>set S. short e = Some [c] \<and> ?f c = Some (long e, BoolV True)"
        using fs[OF e] by (intro bexI[of _ e]) simp_all
    qed
    ultimately show ?thesis by blast
  qed
  have unknown: "parseFlagWithShema S tok = Inl (UnknownFlagError [c] True)"
    if "cs = good @ c # rest"
      "\<forall>g\<in>set good. \<exists>e\<in>set S. short e = Some [g] \<and> valueType e = js ''boolean''"
      "\<forall>e\<in>set S. short e \<noteq> Some [c]" for good c rest
  proof -
    have "find (\<lambda>s. short s = Some [c]) S = None"
      using that(3) by (simp add: find_short_None)
    from short_loop_unknown[OF found[OF that(2)] this, of val "[]" rest]
    show ?thesis using ws that(1) by simp
  qed
  have nonbool: "parseFlagWithShema S tok
         = Inl (FlagParseError (CannotSpecifyInShortForm (valueType e) (long e)) [c] val)"
    if "cs = good @ c # rest"
      "\<forall>g\<in>set good. \<exists>e\<in>set S. short e = Some [g] \<and> valueType e = js ''boolean''"
      "e \<in> set S" "short e = Some [c]" "valueType e \<noteq> js ''boolean''" for good c rest e
  proof -
    from short_loop_not_boolean[OF found[OF that(2)] fs[OF that(3,4)] that(5), of val "[]" rest]
    show ?thesis using ws that(1) by simp
  qed
  have g1: "(\<forall>c\<in>set cs. \<exists>e\<in>set S. short e = Some [c] \<and> valueType e = js ''boolean'') \<longrightarrow>
      (\<exists>ps. parseFlagWithShema S tok = Inr ps
         \<and> list_all2 (\<lambda>c p. \<exists>e\<in>set S. short e = Some [c] \<and> p = Some (long e, BoolV True))
              cs ps)"
    by (intro impI) (rule all_ok)
  have g2: "\<forall>good c rest. cs = good @ c # rest
        \<and> (\<forall>g\<in>set good. \<exists>e\<in>set S. short e = Some [g] \<and> valueType e = js ''boolean'')
        \<and> (\<forall>e\<in>set S. short e \<noteq> Some [c]) \<longrightarrow>
       parseFlagWithShema S tok = Inl (UnknownFlagError [c] True)
       \<and> ((\<forall>a\<in>set pre. \<exists>b. parseFlagWithShema S a = Inr b) \<longrightarrow>
            tiniargs (pre @ tok # post) (Some S)
              = Inl (UnknownFlagError [c] True))"
  proof (intro allI impI, elim conjE)
    fix good c rest
    assume "cs = good @ c # rest"
      "\<forall>g\<in>set good. \<exists>e\<in>set S. short e = Some [g] \<and> valueType e = js ''boolean''"
      "\<forall>e\<in>set S. short e \<noteq> Some [c]"
    then have p: "parseFlagWithShema S tok = Inl (UnknownFlagError [c] True)"
      by (rule unknown)
    show "parseFlagWithShema S tok = Inl (UnknownFlagError [c] True)
       \<and> ((\<forall>a\<in>set pre. \<exists>b. parseFlagWithShema S a = Inr b) \<longrightarrow>
            tiniargs (pre @ tok # post) (Some S)
              = Inl (UnknownFlagError [c] True))"
      using p tiniargs_token_error[OF assms(1) _ p] by (intro conjI impI)
  qed
  have g3: "\<forall>good c rest e. cs = good @ c # rest
        \<and> (\<forall>g\<in>set good. \<exists>e\<in>set S. short e = Some [g] \<and> valueType e = js ''boolean'')
        \<and> e \<in> set S \<and> short e = Some [c] \<and> valueType e \<noteq> js ''boolean'' \<longrightarrow>
       parseFlagWithShema S tok
         = Inl (FlagParseError (CannotSpecifyInShortForm (valueType e) (long e)) [c] val)
       \<and> ((\<forall>a\<in>set pre. \<exists>b. parseFlagWithShema S a = Inr b) \<longrightarrow>
            tiniargs (pre @ tok # post) (Some S)
              = Inl (FlagParseError (CannotSpecifyInShortForm (valueType e) (long e)) [c] val))"
  proof (intro allI impI, elim conjE)
    fix good c rest e
    assume "cs = good @ c # rest"
      "\<forall>g\<in>set good. \<exists>e\<in>set S. short e = Some [g] \<and> valueType e = js ''boolean''"
      "e \<in> set S" "short e = Some [c]" "valueType e \<noteq> js ''boolean''"
    then have p: "parseFlagWithShema S tok
         = Inl (FlagParseError (CannotSpecifyInShortForm (valueType e) (long e)) [c] val)"
      by (rule nonbool)
    show "parseFlagWithShema S tok
         = Inl (FlagParseError (CannotSpecifyInShortForm (valueType e) (long e)) [c] val)
       \<and> ((\<forall>a\<in>set pre. \<exists>b. parseFlagWithShema S a = Inr b) \<longrightarrow>
            tiniargs (pre @ tok # post) (Some S)
              = Inl (FlagParseError (CannotSpecifyInShortForm (valueType e) (long e)) [c] val))"
      using p tiniargs_token_error[OF assms(1) _ p] by (intro conjI impI)
  qed
  have g4: "ds \<noteq> [] \<and> list_all is_word ds \<longrightarrow>
       FLAG_REGEX_match (js ''-'' @ ds) = Some (ds, None)
       \<and> \<not> startsWith (js ''-'' @ ds) (js ''--'')"
  proof (intro impI, elim conjE)
    assume ds: "ds \<noteq> []" "list_all is_word ds"
    have sw: "starts_word (ds @ [])"
      using ds by (rule starts_word_append)
    have "FLAG_REGEX_match (dash # ds @ []) = flag_body (ds @ [])"
      using sw by (rule FLAG_REGEX_match_dash(1))
    then have m: "FLAG_REGEX_match (js ''-'' @ ds) = Some (ds, None)"
      using flag_body_key[OF ds, of "[]"] by simp
    have nd: "\<not> startsWith (js ''-'' @ ds) (js ''--'')"
      using ds by (cases ds) auto
    show "FLAG_REGEX_match (js ''-'' @ ds) = Some (ds, None)
       \<and> \<not> startsWith (js ''-'' @ ds) (js ''--'')"
      using m nd by (rule conjI)
  qed
  show ?thesis
    by (intro conjI g1 g2 g3 g4)
qed


theorem short_flag_stack_witness:
  "validateSchema [flag_entry ''fake'' ''f'' ''boolean'', flag_entry ''aaa'' ''a'' ''boolean'',
       flag_entry ''ccc'' ''c'' ''boolean'', flag_entry ''eee'' ''e'' ''number'']
     = Inr [flag_entry ''fake'' ''f'' ''boolean'', flag_entry ''aaa'' ''a'' ''boolean'',
       flag_entry ''ccc'' ''c'' ''boolean'', flag_entry ''eee'' ''e'' ''number'']
   \<and> parseFlagWithShema [flag_entry ''fake'' ''f'' ''boolean'', flag_entry ''aaa'' ''a'' ''boolean'',
       flag_entry ''ccc'' ''c'' ''boolean'', flag_entry ''eee'' ''e'' ''number''] (js ''-fac'')
     = Inr [Some (js ''fake'', BoolV True), Some (js ''aaa'', BoolV True),
            Some (js ''ccc'', BoolV True)]
   \<and> tiniargs [js ''server'', js ''-faxe'', js ''--nope'']
       (Some [flag_entry ''fake'' ''f'' ''boolean'', flag_entry ''aaa'' ''a'' ''boolean'',
         flag_entry ''ccc'' ''c'' ''boolean'', flag_entry ''eee'' ''e'' ''number''])
     = Inl (UnknownFlagError (js ''x'') True)
   \<and> tiniargs [js ''server'', js ''-face'', js ''--nope'']
       (Some [flag_entry ''fake'' ''f'' ''boolean'', flag_entry ''aaa'' ''a'' ''boolean'',
         flag_entry ''ccc'' ''c'' ''boolean'', flag_entry ''eee'' ''e'' ''number''])
     = Inl (FlagParseError (CannotSpecifyInShortForm (js ''number'') (js ''eee'')) (js ''e'') None)"
proof -
  let ?S = "[flag_entry ''fake'' ''f'' ''boolean'', flag_entry ''aaa'' ''a'' ''boolean'',
       flag_entry ''ccc'' ''c'' ''boolean'', flag_entry ''eee'' ''e'' ''number'']"
  have v: "validateSchema ?S = Inr ?S"
    by (simp add: schema_eval)
  have w: "FLAG_REGEX_match (js ''-fac'') = Some (js ''fac'', None)"
    "\<not> startsWith (js ''-fac'') (js ''--'')"
    "FLAG_REGEX_match (js ''-faxe'') = Some (js ''faxe'', None)"
    "\<not> startsWith (js ''-faxe'') (js ''--'')"
    "FLAG_REGEX_match (js ''-face'') = Some (js ''face'', None)"
    "\<not> startsWith (js ''-face'') (js ''--'')"
    by (simp_all add: token_eval)
  have wd: "js ''fac'' \<noteq> [] \<and> list_all is_word (js ''fac'')"
    by (simp add: js_def is_word_def)
  have all: "\<forall>c\<in>set (js ''fac''). \<exists>e\<in>set ?S. short e = Some [c] \<and> valueType e = js ''boolean''"
    by (simp add: js_def flag_entry_def)
  have unk: "js ''faxe'' = js ''fa'' @ of_nat 120 # js ''e''
      \<and> (\<forall>g\<in>set (js ''fa''). \<exists>e\<in>set ?S. short e = Some [g] \<and> valueType e = js ''boolean'')
      \<and> (\<forall>e\<in>set ?S. short e \<noteq> Some [of_nat 120])"
    by (simp add: js_def flag_entry_def)
  have nb: "js ''face'' = js ''fac'' @ of_nat 101 # []
      \<and> (\<forall>g\<in>set (js ''fac''). \<exists>e\<in>set ?S. short e = Some [g] \<and> valueType e = js ''boolean'')
      \<and> flag_entry ''eee'' ''e'' ''number'' \<in> set ?S
      \<and> short (flag_entry ''eee'' ''e'' ''number'') = Some [of_nat 101]
      \<and> valueType (flag_entry ''eee'' ''e'' ''number'') \<noteq> js ''boolean''"
    by (simp add: js_def flag_entry_def)
  have pre: "\<forall>a\<in>set [js ''server'']. \<exists>b. parseFlagWithShema ?S a = Inr b"
    by (simp add: token_eval)
  have ev: "parseFlagWithShema ?S (js ''-fac'')
     = Inr [Some (js ''fake'', BoolV True), Some (js ''aaa'', BoolV True),
            Some (js ''ccc'', BoolV True)]"
    by (simp add: token_eval flag_entry_def)
  have x: "js ''x'' = [of_nat 120]" "js ''e'' = [of_nat 101]"
    "js ''-faxe'' = js ''-'' @ js ''faxe''" "js ''-face'' = js ''-'' @ js ''face''"
    "long (flag_entry ''eee'' ''e'' ''number'') = js ''eee''"
    "valueType (flag_entry ''eee'' ''e'' ''number'') = js ''number''"
    by (simp_all add: js_def flag_entry_def)
  note i1 = short_flag_stack[OF v w(1,2), THEN conjunct1, THEN mp, OF all]
  note i2 = short_flag_stack[OF v w(3,4), where pre = "[js ''server'']" and post = "[js ''--nope'']",
      THEN conjunct2, THEN conjunct1, THEN spec, THEN spec, THEN spec, THEN mp, OF unk,
      THEN conjunct2, THEN mp, OF pre]
  note i3 = short_flag_stack[OF v w(5,6), where pre = "[js ''server'']" and post = "[js ''--nope'']",
      THEN conjunct2, THEN conjunct2, THEN conjunct1,
      THEN spec, THEN spec, THEN spec, THEN spec, THEN mp, OF nb,
      THEN conjunct2, THEN mp, OF pre]
  note i4 = short_flag_stack[OF v w(1,2), THEN conjunct2, THEN conjunct2, THEN conjunct2,
      THEN mp, OF wd]
  show ?thesis
    using v ev i1 i2 i3 i4 unfolding x by simp
qed

text \<open>The claim as written is about every character of the token. A short name may be
  any single character, but the key of a token ends at the first character outside
  \<open>\w\<close>: with \<open>?\<close> the short name of a boolean entry, the token \<open>-?\<close> emits nothing,
  and in \<open>-v!x\<close> the characters \<open>!\<close> and \<open>x\<close>, which no entry has, raise nothing.\<close>

theorem short_flag_outside_word_counterexample:
  "validateSchema [flag_entry ''help'' ''?'' ''boolean''] = Inr [flag_entry ''help'' ''?'' ''boolean'']
   \<and> short (flag_entry ''help'' ''?'' ''boolean'') = Some (js ''?'')
   \<and> valueType (flag_entry ''help'' ''?'' ''boolean'') = js ''boolean''
   \<and> parseFlagWithShema [flag_entry ''help'' ''?'' ''boolean''] (js ''-?'') = Inr [None]
   \<and> tiniargs [js ''-?''] (Some [flag_entry ''help'' ''?'' ''boolean''])
       = Inr \<lparr>positionals = [], flags = Map.empty\<rparr>
   \<and> validateSchema [flag_entry ''verbose'' ''v'' ''boolean'']
       = Inr [flag_entry ''verbose'' ''v'' ''boolean'']
   \<and> parseFlagWithShema [flag_entry ''verbose'' ''v'' ''boolean''] (js ''-v!x'')
       = Inr [Some (js ''verbose'', BoolV True)]
   \<and> tiniargs [js ''-v!x''] (Some [flag_entry ''verbose'' ''v'' ''boolean''])
       = Inr \<lparr>positionals = [], flags = [js ''verbose'' \<mapsto> BoolV True]\<rparr>"
  by (simp add: token_eval run_eval flag_entry_def)

text \<open>
  Claim C7, as the code has it. With a validated schema and an entry of value type
  string whose long name \<open>k\<close> is made of word characters, and a non-empty \<open>v\<close> without
  line terminator: the token \<open>--k=v\<close> emits \<open>(k, v)\<close> with \<open>v\<close> as the string it is,
  digits or not; every run that returns on arguments containing the token has
  \<open>flags.k = v\<close>; and the run on the token alone returns, with \<open>flags.k = v\<close>, when \<open>k\<close>
  is not the name of a property that every object inherits from \<open>Object.prototype\<close> and
  no other entry is required. The tokens \<open>--k=\<close> and \<open>--k\<close> raise the \<open>FlagParseError\<close>
  of a string flag that got nothing, with key \<open>k\<close>, which is the result of \<open>tiniargs\<close> when
  every token before parses.
\<close>

theorem schema_string_value_exact:
  assumes "validateSchema S = Inr S" "e \<in> set S" "long e = k" "valueType e = js ''string''"
    and "list_all is_word k" "list_all (\<lambda>c. \<not> line_terminator c) v"
  shows "(v \<noteq> [] \<longrightarrow>
           parseFlagWithShema S (js ''--'' @ k @ js ''='' @ v) = Inr [Some (k, StrV v)]
         \<and> (tiniargs args (Some S) = Inr r \<and> js ''--'' @ k @ js ''='' @ v \<in> set args \<longrightarrow>
              flags r k = Some (StrV v))
         \<and> (k \<notin> set object_prototype_keys
              \<and> (\<forall>s\<in>set S. required s = Some True \<longrightarrow> long s = k) \<longrightarrow>
              (\<exists>r. tiniargs [js ''--'' @ k @ js ''='' @ v] (Some S) = Inr r
                 \<and> positionals r = [] \<and> flags r k = Some (StrV v))))
    \<and> parseFlagWithShema S (js ''--'' @ k @ js ''='')
         = Inl (FlagParseError (ExpectedString k) k (Some []))
    \<and> parseFlagWithShema S (js ''--'' @ k)
         = Inl (FlagParseError (ExpectedString k) k None)
    \<and> ((\<forall>a\<in>set pre. \<exists>b. parseFlagWithShema S a = Inr b) \<longrightarrow>
          tiniargs (pre @ (js ''--'' @ k @ js ''='') # post) (Some S)
            = Inl (FlagParseError (ExpectedString k) k (Some []))
        \<and> tiniargs (pre @ (js ''--'' @ k) # post) (Some S)
            = Inl (FlagParseError (ExpectedString k) k None))"
proof -
  note facts = valid_schema_facts[OF assms(1)]
  have k: "k \<noteq> []"
    using facts(3) assms(2,3) valid_entry_long by blast
  have fnd: "find (\<lambda>s. long s = k) S = Some e"
    using find_by_long[OF facts(1) assms(2)] assms(3) by simp
  note m = long_token_match[OF k assms(5)]
  have ok: "parseFlagWithShema S (js ''--'' @ k @ js ''='' @ v) = Inr [Some (k, StrV v)]"
    if "v \<noteq> []"
    unfolding parse_long_string[OF m(1) long_token_starts fnd assms(4)]
    using that by (simp add: takeWhile_all[OF assms(6)] assms(3))
  have e1: "parseFlagWithShema S (js ''--'' @ k @ js ''='')
         = Inl (FlagParseError (ExpectedString k) k (Some []))"
    unfolding parse_long_string[OF m(2) long_token_starts fnd assms(4)] by simp
  have e2: "parseFlagWithShema S (js ''--'' @ k)
         = Inl (FlagParseError (ExpectedString k) k None)"
    unfolding parse_long_string[OF m(3) long_token_starts fnd assms(4)] by simp
  have st: "flags r k = Some (StrV v)"
    if "v \<noteq> []" "tiniargs args (Some S) = Inr r" "js ''--'' @ k @ js ''='' @ v \<in> set args"
    using tiniargs_stores_pair[OF that(2) assms(1) that(3) ok[OF that(1)]] by simp
  have sw: "startsWith (js ''--'' @ w) (js ''-'')" for w
    by simp
  have single: "\<exists>r. tiniargs [js ''--'' @ k @ js ''='' @ v] (Some S) = Inr r
                 \<and> positionals r = [] \<and> flags r k = Some (StrV v)"
    if "v \<noteq> []" "k \<notin> set object_prototype_keys"
      "\<forall>s\<in>set S. required s = Some True \<longrightarrow> long s = k"
    using assms(1) sw ok[OF that(1)] that(2,3) by (rule tiniargs_single_token)
  show ?thesis
    using ok e1 e2 st single
      tiniargs_token_error[OF assms(1) _ e1] tiniargs_token_error[OF assms(1) _ e2]
    by blast
qed

theorem schema_string_value_witness:
  "validateSchema [flag_entry ''testflag'' ''l'' ''string'']
     = Inr [flag_entry ''testflag'' ''l'' ''string'']
   \<and> list_all is_word (js ''testflag'')
   \<and> list_all (\<lambda>c. \<not> line_terminator c) (js ''194'') \<and> js ''194'' \<noteq> []
   \<and> parseFlagWithShema [flag_entry ''testflag'' ''l'' ''string''] (js ''--testflag=194'')
       = Inr [Some (js ''testflag'', StrV (js ''194''))]
   \<and> tiniargs [js ''server'', js ''--testflag=194''] (Some [flag_entry ''testflag'' ''l'' ''string''])
       = Inr \<lparr>positionals = [js ''server''], flags = [js ''testflag'' \<mapsto> StrV (js ''194'')]\<rparr>
   \<and> tiniargs [js ''server'', js ''--testflag='', js ''--nope'']
        (Some [flag_entry ''testflag'' ''l'' ''string''])
       = Inl (FlagParseError (ExpectedString (js ''testflag'')) (js ''testflag'') (Some []))
   \<and> tiniargs [js ''server'', js ''--testflag'', js ''--nope'']
        (Some [flag_entry ''testflag'' ''l'' ''string''])
       = Inl (FlagParseError (ExpectedString (js ''testflag'')) (js ''testflag'') None)"
proof -
  let ?e = "flag_entry ''testflag'' ''l'' ''string''"
  have v: "validateSchema [?e] = Inr [?e]"
    by (simp add: schema_eval)
  have e: "?e \<in> set [?e]" "long ?e = js ''testflag''" "valueType ?e = js ''string''"
    by (simp_all add: flag_entry_def)
  have w: "list_all is_word (js ''testflag'')"
    and l: "list_all (\<lambda>c. \<not> line_terminator c) (js ''194'')" and n: "js ''194'' \<noteq> []"
    by (simp_all add: js_def is_word_def line_terminator_def)
  have pre: "\<forall>a\<in>set [js ''server'']. \<exists>b. parseFlagWithShema [?e] a = Inr b"
    by (simp add: token_eval)
  have alone: "js ''testflag'' \<notin> set object_prototype_keys"
    "\<forall>s\<in>set [?e]. required s = Some True \<longrightarrow> long s = js ''testflag''"
    by (simp_all add: object_prototype_keys_def js_def flag_entry_def)
  have run: "tiniargs [js ''server'', js ''--testflag=194''] (Some [?e])
       = Inr \<lparr>positionals = [js ''server''], flags = [js ''testflag'' \<mapsto> StrV (js ''194'')]\<rparr>"
    by (simp add: token_eval run_eval flag_entry_def)
  have tok: "js ''--testflag=194'' = js ''--'' @ js ''testflag'' @ js ''='' @ js ''194''"
    "js ''--testflag='' = js ''--'' @ js ''testflag'' @ js ''=''"
    "js ''--testflag'' = js ''--'' @ js ''testflag''"
    by (simp_all add: js_def)
  note inst = schema_string_value_exact[OF v e w l,
      of "[js ''server'', js ''--testflag=194'']" _ "[js ''server'']" "[js ''--nope'']"]
  show ?thesis
    using v w l n run pre alone inst unfolding tok by simp
qed


text \<open>The claim as written is about every entry and every non-empty value. The key of
  a token ends at the first character outside \<open>\w\<close>, so the entry \<open>dry-run\<close> is selected
  by no token; the value ends at the first line terminator; and a long name that
  \<open>Object.prototype\<close> also has is reported as a duplicate.\<close>

theorem string_flag_counterexample:
  "validateSchema [flag_entry ''dry-run'' ''d'' ''string'']
     = Inr [flag_entry ''dry-run'' ''d'' ''string'']
   \<and> tiniargs [js ''--dry-run=yes''] (Some [flag_entry ''dry-run'' ''d'' ''string''])
     = Inl (UnknownFlagError (js ''dry'') False)
   \<and> validateSchema [flag_entry ''name'' ''n'' ''string'']
     = Inr [flag_entry ''name'' ''n'' ''string'']
   \<and> tiniargs [js ''--name=a'' @ [0x0A] @ js ''b''] (Some [flag_entry ''name'' ''n'' ''string''])
     = Inr \<lparr>positionals = [], flags = [js ''name'' \<mapsto> StrV (js ''a'')]\<rparr>
   \<and> validateSchema [flag_entry ''toString'' ''t'' ''string'']
     = Inr [flag_entry ''toString'' ''t'' ''string'']
   \<and> tiniargs [js ''--toString=x''] (Some [flag_entry ''toString'' ''t'' ''string''])
     = Inl (DuplicateFlagError (js ''toString'') (Inherited (js ''toString'')) (StrV (js ''x'')))"
  by (simp add: token_eval run_eval flag_entry_def)

text \<open>
  Claim C10, as the code has it. With a validated schema and an entry of value type
  number whose long name \<open>k\<close> is made of word characters, a token \<open>--k=v\<close> whose value
  is a non-empty run of decimal digits followed by something that does not start with a
  digit (\<open>--k=12abc\<close>) does not fail: it emits \<open>k\<close> with the double nearest to the
  integer that the digits denote (the integer itself below \<open>2^53\<close>), because \<open>parseInt\<close>
  reads a prefix; every run that returns on arguments containing the token has that
  number as \<open>flags.k\<close>, and the run on the token alone returns when \<open>k\<close> is not the name
  of a property that every object inherits from \<open>Object.prototype\<close> and no other entry
  is required. Without a schema the same token is a number only when the captured value
  is all digits, which here means that a line terminator follows the digits at once;
  otherwise it is the captured string.
\<close>

theorem schema_number_prefix:
  assumes "validateSchema S = Inr S" "e \<in> set S" "long e = k" "valueType e = js ''number''"
    and "list_all is_word k"
    and "ds \<noteq> []" "list_all is_digit ds" "rest \<noteq> []" "\<not> is_digit (hd rest)"
  shows "parseFlagWithShema S (js ''--'' @ k @ js ''='' @ ds @ rest)
           = Inr [Some (k, NumV (to_Number False (digits_value ds)))]
    \<and> (tiniargs args (Some S) = Inr r \<and> js ''--'' @ k @ js ''='' @ ds @ rest \<in> set args \<longrightarrow>
          flags r k = Some (NumV (to_Number False (digits_value ds))))
    \<and> (k \<notin> set object_prototype_keys
          \<and> (\<forall>s\<in>set S. required s = Some True \<longrightarrow> long s = k) \<longrightarrow>
          (\<exists>r. tiniargs [js ''--'' @ k @ js ''='' @ ds @ rest] (Some S) = Inr r
             \<and> positionals r = []
             \<and> flags r k = Some (NumV (to_Number False (digits_value ds)))))
    \<and> parseFlagNoSchema (js ''--'' @ k @ js ''='' @ ds @ rest)
           = [Some (k, if line_terminator (hd rest) then NumV (to_Number False (digits_value ds))
                       else StrV (ds @ takeWhile (\<lambda>c. \<not> line_terminator c) rest))]"
proof -
  note facts = valid_schema_facts[OF assms(1)]
  have k: "k \<noteq> []"
    using facts(3) assms(2,3) valid_entry_long by blast
  have fnd: "find (\<lambda>s. long s = k) S = Some e"
    using find_by_long[OF facts(1) assms(2)] assms(3) by simp
  define tail where "tail = takeWhile (\<lambda>c. \<not> line_terminator c) rest"
  have cap: "takeWhile (\<lambda>c. \<not> line_terminator c) (ds @ rest) = ds @ tail"
    unfolding tail_def using assms(7)
    by (intro takeWhile_append2) (auto simp: list_all_iff digit_not_line_terminator)
  have tail_hd: "case tail of [] \<Rightarrow> True | c # _ \<Rightarrow> \<not> is_digit c"
    using assms(8,9) unfolding tail_def by (cases rest) auto
  have tail_empty: "tail = [] \<longleftrightarrow> line_terminator (hd rest)"
    using assms(8) unfolding tail_def by (cases rest) auto
  have m: "FLAG_REGEX_match (js ''--'' @ k @ js ''='' @ ds @ rest) = Some (k, Some (ds @ tail))"
    using long_token_match(1)[OF k assms(5), of "ds @ rest"] by (simp only: cap)
  have pi: "parseInt (ds @ tail) = Some (to_Number False (digits_value ds))"
    using assms(6,7) tail_hd by (rule parseInt_digits)
  have ws: "parseFlagWithShema S (js ''--'' @ k @ js ''='' @ ds @ rest)
           = Inr [Some (k, NumV (to_Number False (digits_value ds)))]"
    unfolding parse_long_number[OF m long_token_starts fnd assms(4)]
    by (simp add: ToString_def pi assms(3))
  have st: "flags r k = Some (NumV (to_Number False (digits_value ds)))"
    if "tiniargs args (Some S) = Inr r" "js ''--'' @ k @ js ''='' @ ds @ rest \<in> set args"
    using tiniargs_stores_pair[OF that(1) assms(1) that(2) ws] by simp
  have sw: "startsWith (js ''--'' @ w) (js ''-'')" for w
    by simp
  have single: "\<exists>r. tiniargs [js ''--'' @ k @ js ''='' @ ds @ rest] (Some S) = Inr r
             \<and> positionals r = []
             \<and> flags r k = Some (NumV (to_Number False (digits_value ds)))"
    if "k \<notin> set object_prototype_keys"
      "\<forall>s\<in>set S. required s = Some True \<longrightarrow> long s = k"
    using assms(1) sw ws that by (rule tiniargs_single_token)
  have "\<not> list_all is_digit (ds @ tail)" if "tail \<noteq> []"
    using that tail_hd by (cases tail) auto
  then have ns: "parseFlagNoSchema (js ''--'' @ k @ js ''='' @ ds @ rest)
           = [Some (k, if line_terminator (hd rest) then NumV (to_Number False (digits_value ds))
                       else StrV (ds @ takeWhile (\<lambda>c. \<not> line_terminator c) rest))]"
    unfolding no_schema_captured[OF m] tail_empty[symmetric]
    using assms(6,7) by (auto simp: tail_def)
  show ?thesis using ws st single ns by blast
qed

theorem schema_number_prefix_witness:
  "validateSchema [flag_entry ''testflag'' ''l'' ''number'']
     = Inr [flag_entry ''testflag'' ''l'' ''number'']
   \<and> list_all is_word (js ''testflag'')
   \<and> list_all is_digit (js ''12'') \<and> \<not> is_digit (hd (js ''abc''))
   \<and> to_Number False (digits_value (js ''12'')) = Finite False 12
   \<and> parseFlagWithShema [flag_entry ''testflag'' ''l'' ''number''] (js ''--testflag=12abc'')
       = Inr [Some (js ''testflag'', NumV (Finite False 12))]
   \<and> tiniargs [js ''--testflag=12abc''] (Some [flag_entry ''testflag'' ''l'' ''number''])
       = Inr \<lparr>positionals = [], flags = [js ''testflag'' \<mapsto> NumV (Finite False 12)]\<rparr>
   \<and> parseFlagNoSchema (js ''--testflag=12abc'') = [Some (js ''testflag'', StrV (js ''12abc''))]"
proof -
  let ?e = "flag_entry ''testflag'' ''l'' ''number''"
  have v: "validateSchema [?e] = Inr [?e]"
    by (simp add: schema_eval)
  have e: "?e \<in> set [?e]" "long ?e = js ''testflag''" "valueType ?e = js ''number''"
    by (simp_all add: flag_entry_def)
  have w: "list_all is_word (js ''testflag'')"
    and d: "js ''12'' \<noteq> []" "list_all is_digit (js ''12'')"
    and r: "js ''abc'' \<noteq> []" "\<not> is_digit (hd (js ''abc''))"
    and dv: "to_Number False (digits_value (js ''12'')) = Finite False 12"
    and lt: "\<not> line_terminator (hd (js ''abc''))"
      "takeWhile (\<lambda>c. \<not> line_terminator c) (js ''abc'') = js ''abc''"
    by (simp_all add: js_def is_word_def is_digit_def digits_value_def line_terminator_def
        to_Number_def nearest_double_def exponent_of.simps)
  have alone: "js ''testflag'' \<notin> set object_prototype_keys"
    "\<forall>s\<in>set [?e]. required s = Some True \<longrightarrow> long s = js ''testflag''"
    by (simp_all add: object_prototype_keys_def js_def flag_entry_def)
  have run: "tiniargs [js ''--testflag=12abc''] (Some [?e])
       = Inr \<lparr>positionals = [], flags = [js ''testflag'' \<mapsto> NumV (Finite False 12)]\<rparr>"
    by (simp add: token_eval run_eval flag_entry_def)
  have tok: "js ''--testflag=12abc'' = js ''--'' @ js ''testflag'' @ js ''='' @ js ''12'' @ js ''abc''"
    "js ''12abc'' = js ''12'' @ js ''abc''"
    by (simp_all add: js_def)
  note inst = schema_number_prefix[OF v e w d r]
  show ?thesis
    using v w d r dv run alone inst lt unfolding tok by simp
qed

text \<open>The claim as written is about every entry and emits the integer prefix. The
  entry \<open>dry-run\<close> is selected by no token, and the number emitted for the prefix
  \<open>9007199254740993\<close> is the double \<open>9007199254740992\<close>.\<close>

theorem number_flag_counterexample:
  "validateSchema [flag_entry ''dry-run'' ''d'' ''number'']
     = Inr [flag_entry ''dry-run'' ''d'' ''number'']
   \<and> tiniargs [js ''--dry-run=12abc''] (Some [flag_entry ''dry-run'' ''d'' ''number''])
     = Inl (UnknownFlagError (js ''dry'') False)
   \<and> validateSchema [flag_entry ''count'' ''c'' ''number'']
     = Inr [flag_entry ''count'' ''c'' ''number'']
   \<and> tiniargs [js ''--count=9007199254740993abc''] (Some [flag_entry ''count'' ''c'' ''number''])
     = Inr \<lparr>positionals = [],
            flags = [js ''count'' \<mapsto> NumV (Finite False 9007199254740992)]\<rparr>"
  by (simp add: token_eval run_eval flag_entry_def)


section \<open>The merge\<close>





section \<open>Required flags and defaults\<close>






end
